theory Spec2Isabelle
  imports Complex_Main "HOL-Library.Log_Nat"
begin

section \<open>Python values used by the progress bar\<close>

text \<open>
  The source is \<^verbatim>\<open>src/progress-bar.py\<close>: one class, \<^verbatim>\<open>ProgressBar\<close>, with three
  validated attributes and one method, \<^verbatim>\<open>update\<close>.  Python integers are unbounded
  (\<^typ>\<open>int\<close>); Python strings are sequences of code points (\<^typ>\<open>nat list\<close>), so that
  \<^verbatim>\<open>len\<close> is \<^const>\<open>length\<close> and the two non-ASCII glyphs of the bar are one element
  each.
\<close>

type_synonym pystr = "nat list"

definition ascii :: "string \<Rightarrow> pystr" where
  "ascii s = map of_char s"

datatype exn = ValueError | ZeroDivisionError | OverflowError | TypeError | MemoryError
  | UnicodeEncodeError

subsection \<open>Binary64 floating point\<close>

text \<open>
  A Python \<^verbatim>\<open>float\<close> is an IEEE 754 binary64 value.  A finite non-zero value and
  positive zero are \<open>Fin r\<close> with \<open>r\<close> the exact rational value; \<open>NZ\<close> is negative zero.
  Every arithmetic operation computes the exact rational result and rounds it to the
  nearest representable value, ties to even (\<open>rnd\<close>).
\<close>

datatype pyfloat = Fin rat | NZ | PInf | NInf | NaN

definition pow2 :: "int \<Rightarrow> rat" where
  "pow2 e = (if 0 \<le> e then 2 ^ nat e else 1 / 2 ^ nat (- e))"

definition ilog2 :: "rat \<Rightarrow> int" where
  \<comment> \<open>\<open>\<lfloor>log\<^sub>2 x\<rfloor>\<close> for \<open>0 < x\<close>, from the bit lengths of numerator and denominator\<close>
  "ilog2 x = (case quotient_of x of (p, q) \<Rightarrow>
     (let d = bitlen p - bitlen q in if pow2 d \<le> x then d else d - 1))"

definition rhe :: "rat \<Rightarrow> int" where
  \<comment> \<open>round to the nearest integer, ties to the even one\<close>
  "rhe x = (let f = \<lfloor>x\<rfloor>; d = x - of_int f in
     if d < 1 / 2 then f else if 1 / 2 < d then f + 1
     else if even f then f else f + 1)"

definition MAXF :: rat where
  \<comment> \<open>the largest finite binary64 value\<close>
  "MAXF = (2 ^ 53 - 1) * 2 ^ 971"

definition rnd :: "rat \<Rightarrow> pyfloat" where
  "rnd x = (if x = 0 then Fin 0 else
     (let e = max (ilog2 \<bar>x\<bar>) (- 1022);
          u = pow2 (e - 52);
          m = rhe (x / u);
          r = of_int m * u
      in if MAXF < \<bar>r\<bar> then (if 0 < x then PInf else NInf)
         else if m = 0 then (if x < 0 then NZ else Fin 0)
         else Fin r))"

definition val :: "pyfloat \<Rightarrow> rat" where
  "val a = (case a of Fin r \<Rightarrow> r | _ \<Rightarrow> 0)"

definition is_nan :: "pyfloat \<Rightarrow> bool" where
  "is_nan a = (case a of NaN \<Rightarrow> True | _ \<Rightarrow> False)"

definition is_inf :: "pyfloat \<Rightarrow> bool" where
  "is_inf a = (case a of PInf \<Rightarrow> True | NInf \<Rightarrow> True | _ \<Rightarrow> False)"

definition is_zero :: "pyfloat \<Rightarrow> bool" where
  "is_zero a = (case a of Fin r \<Rightarrow> r = 0 | NZ \<Rightarrow> True | _ \<Rightarrow> False)"

definition is_finite :: "pyfloat \<Rightarrow> bool" where
  "is_finite a = (case a of Fin r \<Rightarrow> True | NZ \<Rightarrow> True | _ \<Rightarrow> False)"

definition signbit :: "pyfloat \<Rightarrow> bool" where
  "signbit a = (case a of Fin r \<Rightarrow> r < 0 | NZ \<Rightarrow> True | NInf \<Rightarrow> True | _ \<Rightarrow> False)"

definition zero_signed :: "bool \<Rightarrow> pyfloat" where
  "zero_signed neg = (if neg then NZ else Fin 0)"

definition inf_signed :: "bool \<Rightarrow> pyfloat" where
  "inf_signed neg = (if neg then NInf else PInf)"

definition fneg :: "pyfloat \<Rightarrow> pyfloat" where
  "fneg a = (case a of Fin r \<Rightarrow> (if r = 0 then NZ else Fin (- r)) | NZ \<Rightarrow> Fin 0
     | PInf \<Rightarrow> NInf | NInf \<Rightarrow> PInf | NaN \<Rightarrow> NaN)"

definition fmul :: "pyfloat \<Rightarrow> pyfloat \<Rightarrow> pyfloat" where
  "fmul a b =
     (if is_nan a \<or> is_nan b then NaN
      else if is_inf a \<or> is_inf b then
        (if is_zero a \<or> is_zero b then NaN else inf_signed (signbit a \<noteq> signbit b))
      else if is_zero a \<or> is_zero b then zero_signed (signbit a \<noteq> signbit b)
      else rnd (val a * val b))"

definition fadd :: "pyfloat \<Rightarrow> pyfloat \<Rightarrow> pyfloat" where
  "fadd a b =
     (if is_nan a \<or> is_nan b then NaN
      else if is_inf a then (if is_inf b \<and> signbit a \<noteq> signbit b then NaN else a)
      else if is_inf b then b
      else if is_zero a \<and> is_zero b then zero_signed (signbit a \<and> signbit b)
      else rnd (val a + val b))"

definition fsub :: "pyfloat \<Rightarrow> pyfloat \<Rightarrow> pyfloat" where
  "fsub a b = fadd a (fneg b)"

definition cdiv :: "pyfloat \<Rightarrow> pyfloat \<Rightarrow> pyfloat" where
  \<comment> \<open>IEEE division of the C level, for a non-zero divisor\<close>
  "cdiv a b =
     (if is_nan a \<or> is_nan b then NaN
      else if is_inf a then
        (if is_inf b then NaN else inf_signed (signbit a \<noteq> signbit b))
      else if is_inf b \<or> is_zero a then zero_signed (signbit a \<noteq> signbit b)
      else rnd (val a / val b))"

definition fdiv :: "pyfloat \<Rightarrow> pyfloat \<Rightarrow> exn + pyfloat" where
  \<comment> \<open>Python's \<^verbatim>\<open>float / float\<close>: a zero divisor raises, whatever the dividend\<close>
  "fdiv a b = (if is_zero b then Inl ZeroDivisionError else Inr (cdiv a b))"

definition flt :: "pyfloat \<Rightarrow> pyfloat \<Rightarrow> bool" where
  "flt a b =
     (if is_nan a \<or> is_nan b then False
      else case (a, b) of
          (PInf, _) \<Rightarrow> False
        | (NInf, NInf) \<Rightarrow> False
        | (NInf, _) \<Rightarrow> True
        | (_, PInf) \<Rightarrow> True
        | (_, NInf) \<Rightarrow> False
        | _ \<Rightarrow> val a < val b)"

definition feq :: "pyfloat \<Rightarrow> pyfloat \<Rightarrow> bool" where
  "feq a b =
     (if is_nan a \<or> is_nan b then False
      else if is_inf a \<or> is_inf b then a = b
      else val a = val b)"

definition fle :: "pyfloat \<Rightarrow> pyfloat \<Rightarrow> bool" where
  "fle a b = (flt a b \<or> feq a b)"

definition fgt :: "pyfloat \<Rightarrow> pyfloat \<Rightarrow> bool" where
  "fgt a b = flt b a"

definition int_to_float :: "int \<Rightarrow> exn + pyfloat" where
  \<comment> \<open>the conversion of an \<^verbatim>\<open>int\<close> operand in mixed arithmetic:
      \<^verbatim>\<open>OverflowError: int too large to convert to float\<close>\<close>
  "int_to_float i = (case rnd (of_int i) of
       PInf \<Rightarrow> Inl OverflowError | NInf \<Rightarrow> Inl OverflowError | f \<Rightarrow> Inr f)"

definition py_truediv :: "int \<Rightarrow> int \<Rightarrow> exn + pyfloat" where
  \<comment> \<open>\<^verbatim>\<open>int / int\<close>: the correctly rounded quotient; a zero dividend takes the sign
      of the divisor; a quotient beyond the float range raises\<close>
  "py_truediv a b =
     (if b = 0 then Inl ZeroDivisionError
      else if a = 0 then Inr (zero_signed (b < 0))
      else case rnd (of_int a / of_int b) of
          PInf \<Rightarrow> Inl OverflowError | NInf \<Rightarrow> Inl OverflowError | f \<Rightarrow> Inr f)"

definition py_round_nd :: "pyfloat \<Rightarrow> nat \<Rightarrow> exn + pyfloat" where
  \<comment> \<open>\<^verbatim>\<open>round(x, n)\<close> for \<open>0 \<le> n \<le> 323\<close>: the decimal with \<open>n\<close> places nearest to
      the exact value of \<open>x\<close> (ties to even), converted back to the nearest float\<close>
  "py_round_nd x n = (case x of
       Fin r \<Rightarrow>
         (let k = rhe (r * 10 ^ n) in
          if k = 0 then Inr (zero_signed (r < 0))
          else case rnd (of_int k / 10 ^ n) of
              PInf \<Rightarrow> Inl OverflowError | NInf \<Rightarrow> Inl OverflowError | f \<Rightarrow> Inr f)
     | _ \<Rightarrow> Inr x)"

definition py_round :: "pyfloat \<Rightarrow> exn + int" where
  \<comment> \<open>\<^verbatim>\<open>round(x)\<close>: the nearest integer, ties to even\<close>
  "py_round x = (case x of
       Fin r \<Rightarrow> Inr (rhe r) | NZ \<Rightarrow> Inr 0
     | NaN \<Rightarrow> Inl ValueError | _ \<Rightarrow> Inl OverflowError)"

definition trunc :: "rat \<Rightarrow> int" where
  "trunc r = (if 0 \<le> r then \<lfloor>r\<rfloor> else \<lceil>r\<rceil>)"

definition py_int :: "pyfloat \<Rightarrow> exn + int" where
  \<comment> \<open>\<^verbatim>\<open>int(x)\<close>: truncation towards zero\<close>
  "py_int x = (case x of
       Fin r \<Rightarrow> Inr (trunc r) | NZ \<Rightarrow> Inr 0
     | NaN \<Rightarrow> Inl ValueError | _ \<Rightarrow> Inl OverflowError)"

definition fmod :: "pyfloat \<Rightarrow> pyfloat \<Rightarrow> pyfloat" where
  \<comment> \<open>C's \<^verbatim>\<open>fmod\<close>: exact, with the sign of the dividend\<close>
  "fmod a b =
     (if is_nan a \<or> is_nan b \<or> is_inf a \<or> is_zero b then NaN
      else if is_inf b \<or> is_zero a then a
      else (let r = val a - of_int (trunc (val a / val b)) * val b in
            if r = 0 then zero_signed (signbit a) else Fin r))"

definition ffloor :: "pyfloat \<Rightarrow> pyfloat" where
  "ffloor a = (case a of Fin r \<Rightarrow> Fin (of_int \<lfloor>r\<rfloor>) | _ \<Rightarrow> a)"

definition truthy :: "pyfloat \<Rightarrow> bool" where
  \<comment> \<open>C's test \<^verbatim>\<open>if (x)\<close>: everything but the two zeros\<close>
  "truthy a = (\<not> is_zero a)"

definition float_floordiv :: "pyfloat \<Rightarrow> pyfloat \<Rightarrow> exn + pyfloat" where
  \<comment> \<open>\<^verbatim>\<open>float // float\<close>, as CPython computes it\<close>
  "float_floordiv vx wx =
     (if is_zero wx then Inl ZeroDivisionError
      else
        (let md = fmod vx wx;
             div0 = cdiv (fsub vx md) wx;
             div1 = (if truthy md \<and> (flt wx (Fin 0) \<noteq> flt md (Fin 0))
                     then fsub div0 (Fin 1) else div0)
         in if truthy div1 then
              (let fl = ffloor div1 in
               Inr (if fgt (fsub div1 fl) (Fin (1 / 2)) then fadd fl (Fin 1) else fl))
            else Inr (zero_signed (signbit vx \<noteq> signbit wx))))"

definition float_rem :: "pyfloat \<Rightarrow> pyfloat \<Rightarrow> exn + pyfloat" where
  \<comment> \<open>\<^verbatim>\<open>float % float\<close>, as CPython computes it\<close>
  "float_rem vx wx =
     (if is_zero wx then Inl ZeroDivisionError
      else
        (let md = fmod vx wx
         in if truthy md then
              Inr (if flt wx (Fin 0) \<noteq> flt md (Fin 0) then fadd md wx else md)
            else Inr (zero_signed (signbit wx))))"

subsection \<open>Strings and formatting\<close>

function str_digits :: "int \<Rightarrow> pystr" where
  \<comment> \<open>the decimal digits of a non-negative integer\<close>
  "str_digits n = (if n < 10 then [48 + nat n]
     else str_digits (n div 10) @ [48 + nat (n mod 10)])"
  by pat_completeness auto
termination
  by (relation "measure nat") auto

declare str_digits.simps [simp del]

definition str_int :: "int \<Rightarrow> pystr" where
  \<comment> \<open>\<^verbatim>\<open>str(i)\<close> of an integer\<close>
  "str_int i = (if i < 0 then 45 # str_digits (- i) else str_digits i)"

definition zfill :: "nat \<Rightarrow> pystr \<Rightarrow> pystr" where
  \<comment> \<open>\<^verbatim>\<open>s.zfill(w)\<close>: zeros go after a leading sign\<close>
  "zfill w s =
     (if w \<le> length s then s
      else case s of
          c # cs \<Rightarrow> (if c = 43 \<or> c = 45 then c # replicate (w - length s) 48 @ cs
                     else replicate (w - length s) 48 @ s)
        | [] \<Rightarrow> replicate w 48)"

definition rjust :: "nat \<Rightarrow> pystr \<Rightarrow> pystr" where
  \<comment> \<open>\<^verbatim>\<open>s.rjust(w)\<close>\<close>
  "rjust w s = replicate (w - length s) 32 @ s"

definition format_f :: "nat \<Rightarrow> pyfloat \<Rightarrow> pystr" where
  \<comment> \<open>the format specification \<^verbatim>\<open>.nf\<close>: the exact value rounded to \<open>n\<close> decimals,
      ties to even\<close>
  "format_f n x = (case x of
       Fin r \<Rightarrow>
         (let k = rhe (\<bar>r\<bar> * 10 ^ n) in
          (if r < 0 then [45] else []) @ str_digits (k div 10 ^ n) @ [46]
            @ replicate (n - length (str_digits (k mod 10 ^ n))) 48
            @ (if n = 0 then [] else str_digits (k mod 10 ^ n)))
     | NZ \<Rightarrow> [45, 48, 46] @ replicate n 48
     | PInf \<Rightarrow> ascii ''inf'' | NInf \<Rightarrow> ascii ''-inf'' | NaN \<Rightarrow> ascii ''nan'')"

definition repeated :: "pystr \<Rightarrow> int \<Rightarrow> pystr" where
  \<comment> \<open>the characters of \<^verbatim>\<open>s * n\<close>: none for \<open>n \<le> 0\<close>\<close>
  "repeated s n = concat (replicate (nat n) s)"

definition index_sized :: "int \<Rightarrow> bool" where
  \<comment> \<open>the integers that fit \<^verbatim>\<open>Py_ssize_t\<close> (64 bit)\<close>
  "index_sized n = (- (2 ^ 63) \<le> n \<and> n < 2 ^ 63)"

definition EPS :: pyfloat where
  \<comment> \<open>the literal \<^verbatim>\<open>1e-12\<close>\<close>
  "EPS = rnd (1 / 10 ^ 12)"

definition eta_format :: "pyfloat \<Rightarrow> exn + pystr" where
  \<comment> \<open>\<^verbatim>\<open>f"{str(int(eta // 60)).zfill(2)}:{str(int(eta % 60)).zfill(2)}"\<close>\<close>
  "eta_format eta =
     (case float_floordiv eta (Fin 60) of Inl e \<Rightarrow> Inl e | Inr q \<Rightarrow>
      case py_int q of Inl e \<Rightarrow> Inl e | Inr mi \<Rightarrow>
      case float_rem eta (Fin 60) of Inl e \<Rightarrow> Inl e | Inr r \<Rightarrow>
      case py_int r of Inl e \<Rightarrow> Inl e | Inr se \<Rightarrow>
        Inr (zfill 2 (str_int mi) @ [58] @ zfill 2 (str_int se)))"

section \<open>The class \<^verbatim>\<open>ProgressBar\<close>\<close>

text \<open>
  Arguments of the constructor are untyped Python values.  \<^verbatim>\<open>isinstance(v, int)\<close> holds
  of integers and of booleans (\<^verbatim>\<open>bool\<close> is a subclass of \<^verbatim>\<open>int\<close>).
\<close>

datatype pyval = PyInt int | PyBool bool | PyFloat pyfloat | PyStr pystr | PyNone

definition isinstance_int :: "pyval \<Rightarrow> bool" where
  "isinstance_int v = (case v of PyInt i \<Rightarrow> True | PyBool b \<Rightarrow> True | _ \<Rightarrow> False)"

definition isinstance_str :: "pyval \<Rightarrow> bool" where
  "isinstance_str v = (case v of PyStr s \<Rightarrow> True | _ \<Rightarrow> False)"

definition int_of :: "pyval \<Rightarrow> int" where
  \<comment> \<open>the number an instance of \<^verbatim>\<open>int\<close> stands for in arithmetic\<close>
  "int_of v = (case v of PyInt i \<Rightarrow> i | PyBool b \<Rightarrow> (if b then 1 else 0) | _ \<Rightarrow> 0)"

record ProgressBar =
  self_start :: "pyfloat option"
  self_total :: pyval
  self_text :: pystr
  self_width :: pyval
  self_progress :: pyfloat
  self_LAST :: "pyfloat option"

text \<open>
  What the class takes from outside: the colour codes of \<^verbatim>\<open>colorama.Fore\<close>, the
  readings of \<^verbatim>\<open>time.perf_counter\<close> (the \<open>n\<close>-th call returning \<open>clock n\<close>), the
  length of the longest string the interpreter has memory for, and the code points the
  encoding of standard output can encode.
\<close>

record env =
  Fore_GREEN :: pystr
  Fore_RED :: pystr
  Fore_YELLOW :: pystr
  Fore_BLACK :: pystr
  clock :: "nat \<Rightarrow> pyfloat"
  capacity :: nat
  encodable :: "nat \<Rightarrow> bool"

text \<open>
  The terminal: the characters written to standard output, whether the cursor is
  visible, and how often the clock has been read.
\<close>

record io =
  ticks :: nat
  stdout :: pystr
  cursor_visible :: bool

definition perf_counter :: "env \<Rightarrow> io \<Rightarrow> pyfloat \<times> io" where
  "perf_counter E t = (clock E (ticks t), t\<lparr>ticks := Suc (ticks t)\<rparr>)"

definition print :: "env \<Rightarrow> pystr \<Rightarrow> pystr \<Rightarrow> io \<Rightarrow> exn option \<times> io" where
  \<comment> \<open>\<^verbatim>\<open>print(s, end=e)\<close>: the string and the ending are written one after the other,
      and a write of text that standard output cannot encode raises and writes nothing\<close>
  "print E s e t =
     (if \<not> list_all (encodable E) s then (Some UnicodeEncodeError, t)
      else if \<not> list_all (encodable E) e
        then (Some UnicodeEncodeError, t\<lparr>stdout := stdout t @ s\<rparr>)
        else (None, t\<lparr>stdout := stdout t @ s @ e\<rparr>))"

definition str_repeat :: "env \<Rightarrow> pystr \<Rightarrow> int \<Rightarrow> exn + pystr" where
  \<comment> \<open>\<^verbatim>\<open>s * n\<close>: the count has to fit an index, and so has the length of the result,
      which also has to fit the memory; empty for \<open>n \<le> 0\<close>\<close>
  "str_repeat E s n =
     (if \<not> index_sized n then Inl OverflowError
      else if n \<le> 0 \<or> s = [] then Inr []
      else if \<not> index_sized (int (length s) * n) then Inl OverflowError
      else if capacity E < length s * nat n then Inl MemoryError
      else Inr (repeated s n))"

definition fstring :: "env \<Rightarrow> pystr \<Rightarrow> exn + pystr" where
  \<comment> \<open>the value of an f-string whose parts are evaluated: the joined string has to
      fit the memory\<close>
  "fstring E s = (if capacity E < length s then Inl MemoryError else Inr s)"

definition cursor_show :: "io \<Rightarrow> io" where
  "cursor_show t = t\<lparr>cursor_visible := True\<rparr>"

definition cursor_hide :: "io \<Rightarrow> io" where
  "cursor_hide t = t\<lparr>cursor_visible := False\<rparr>"

subsection \<open>Setters and constructor\<close>

definition set_total :: "pyval \<Rightarrow> ProgressBar \<Rightarrow> exn + ProgressBar" where
  "set_total v self =
     (if \<not> isinstance_int v then Inl ValueError else Inr (self\<lparr>self_total := v\<rparr>))"

definition set_text :: "pyval \<Rightarrow> ProgressBar \<Rightarrow> exn + ProgressBar" where
  "set_text v self =
     (case v of PyStr s \<Rightarrow> Inr (self\<lparr>self_text := s\<rparr>) | _ \<Rightarrow> Inl ValueError)"

definition set_width :: "pyval \<Rightarrow> ProgressBar \<Rightarrow> exn + ProgressBar" where
  "set_width v self =
     (if v \<noteq> PyNone \<and> \<not> isinstance_int v then Inl ValueError
      else if v = PyNone
        then Inr (self\<lparr>self_width := PyInt (80 - (int (length (self_text self)) + 15))\<rparr>)
        else Inr (self\<lparr>self_width := v\<rparr>))"

definition blank :: ProgressBar where
  \<comment> \<open>the object before \<^verbatim>\<open>__init__\<close> has created its attributes; every field but
      \<open>self_LAST\<close> is assigned before the constructor returns\<close>
  "blank = \<lparr>self_start = None, self_total = PyNone, self_text = [], self_width = PyNone,
            self_progress = Fin 0, self_LAST = None\<rparr>"

definition init :: "pyval \<Rightarrow> pyval \<Rightarrow> pyval \<Rightarrow> exn + ProgressBar" where
  \<comment> \<open>\<^verbatim>\<open>ProgressBar(total, text, width)\<close>\<close>
  "init total_arg text_arg width_arg =
     (case set_total total_arg (blank\<lparr>self_start := None\<rparr>) of Inl e \<Rightarrow> Inl e | Inr s1 \<Rightarrow>
      case set_text text_arg s1 of Inl e \<Rightarrow> Inl e | Inr s2 \<Rightarrow>
      case set_width width_arg s2 of Inl e \<Rightarrow> Inl e | Inr s3 \<Rightarrow>
        Inr (s3\<lparr>self_progress := EPS\<rparr>))"

definition default_text :: pyval where
  "default_text = PyStr (ascii ''Progress'')"

definition total_getter :: "ProgressBar \<Rightarrow> pyval" where
  "total_getter self = self_total self"

definition text_getter :: "ProgressBar \<Rightarrow> pyval" where
  "text_getter self = PyStr (self_text self)"

definition width_getter :: "ProgressBar \<Rightarrow> pyval" where
  "width_getter self = self_width self"

definition progress_getter :: "ProgressBar \<Rightarrow> pyfloat" where
  "progress_getter self = self_progress self"

subsection \<open>The method \<^verbatim>\<open>update\<close>\<close>

definition SYMBOL :: pystr where
  \<comment> \<open>U+2501, the bar cell\<close>
  "SYMBOL = [9473]"

definition dict_get :: "(string \<rightharpoonup> pystr) \<Rightarrow> string \<Rightarrow> pystr" where
  \<comment> \<open>\<^verbatim>\<open>d.get(k)\<close> inside an f-string: a missing key prints as \<^verbatim>\<open>None\<close>\<close>
  "dict_get d k = (case d k of Some v \<Rightarrow> v | None \<Rightarrow> ascii ''None'')"

definition print_bar ::
  "env \<Rightarrow> (string \<rightharpoonup> pystr) \<Rightarrow> pystr \<Rightarrow> pystr \<Rightarrow> int \<Rightarrow> int \<Rightarrow> pystr \<Rightarrow> pystr \<Rightarrow> pystr \<Rightarrow> io
     \<Rightarrow> exn option \<times> io" where
  \<comment> \<open>the two \<^verbatim>\<open>print\<close> calls of lines 183 to 199, which differ in the last part of
      the f-string and in the ending: the two repetitions of the cell are evaluated,
      the string is built, then it is printed\<close>
  "print_bar E COLORS ICON label completed remaining percentage_format last_part ending t =
     (case str_repeat E SYMBOL completed of Inl e \<Rightarrow> (Some e, t) | Inr filled \<Rightarrow>
      case str_repeat E SYMBOL remaining of Inl e \<Rightarrow> (Some e, t) | Inr unfilled \<Rightarrow>
      case fstring E
             (ascii '' '' @ dict_get COLORS ''text'' @ ICON
              @ ascii '' '' @ dict_get COLORS ''text'' @ label
              @ ascii '' '' @ dict_get COLORS ''progress'' @ filled
              @ dict_get COLORS ''remaining'' @ unfilled
              @ ascii '' '' @ dict_get COLORS ''text''
              @ ascii ''['' @ percentage_format @ ascii '']''
              @ ascii '' '' @ dict_get COLORS ''text'' @ last_part) of
        Inl e \<Rightarrow> (Some e, t)
      | Inr s \<Rightarrow> print E s ending t)"

definition display ::
  "env \<Rightarrow> pyfloat \<Rightarrow> int \<Rightarrow> int \<Rightarrow> ProgressBar \<times> io \<Rightarrow> exn option \<times> ProgressBar \<times> io" where
  \<comment> \<open>lines 159 to 201 of the source, after the boundary adjustments\<close>
  "display E percentage completed remaining st = (case st of (self, t) \<Rightarrow>
     (let p = self_progress self;
          ICON = (if feq p (Fin 1) then [8730] else [64]);
          COLORS = [''text'' \<mapsto> (if feq p (Fin 1) then Fore_GREEN E else Fore_RED E),
                    ''progress'' \<mapsto> (if feq p (Fin 1) then Fore_GREEN E else Fore_YELLOW E),
                    ''remaining'' \<mapsto> Fore_BLACK E];
          t1 = (if feq p (Fin 1) then cursor_show t else cursor_hide t);
          (now, t2) = perf_counter E t1
      in case self_start self of None \<Rightarrow> (Some TypeError, self, t2) | Some start \<Rightarrow>
        (let elapsed = fsub now start
         in case fdiv elapsed p of Inl e \<Rightarrow> (Some e, self, t2) | Inr q \<Rightarrow>
           (let eta = fadd (fmul q (fsub (Fin 1) p)) (Fin 1)
            in case eta_format eta of Inl e \<Rightarrow> (Some e, self, t2) | Inr eta_fmt \<Rightarrow>
              (let percentage_format = rjust 6 (format_f 2 percentage) @ ascii '' %'';
                   (raised, t3) =
                     (if flt p (Fin 1)
                      then print_bar E COLORS ICON (self_text self) completed remaining
                             percentage_format (ascii ''ETA: '' @ eta_fmt) [13] t2
                      else print_bar E COLORS ICON (self_text self) completed remaining
                             percentage_format
                             (ascii ''Elapsed: '' @ format_f 2 elapsed @ ascii ''s'') [10] t2)
               in case raised of
                    Some e \<Rightarrow> (Some e, self, t3)
                  | None \<Rightarrow>
                     (let (stamp, t4) = perf_counter E t3
                      in (None, self\<lparr>self_LAST := Some stamp\<rparr>, t4)))))))"

definition start_timer :: "env \<Rightarrow> ProgressBar \<times> io \<Rightarrow> ProgressBar \<times> io" where
  \<comment> \<open>lines 141 and 142: the time counter starts on the first update\<close>
  "start_timer E st = (case st of (self, t) \<Rightarrow>
     (case self_start self of
        None \<Rightarrow> (let (now, t') = perf_counter E t in (self\<lparr>self_start := Some now\<rparr>, t'))
      | Some s \<Rightarrow> (self, t)))"

definition update ::
  "env \<Rightarrow> int \<Rightarrow> ProgressBar \<times> io \<Rightarrow> exn option \<times> ProgressBar \<times> io" where
  \<comment> \<open>\<^verbatim>\<open>self.update(current)\<close>: the exception raised, if any, with the object and the
      terminal as the call leaves them\<close>
  "update E current st = (case start_timer E st of (self1, t1) \<Rightarrow>
     (case py_truediv current (int_of (self_total self1)) of
          Inl e \<Rightarrow> (Some e, self1, t1)
        | Inr p \<Rightarrow>
           (let self2 = self1\<lparr>self_progress := p\<rparr>
            in case py_round_nd (fmul p (Fin 100)) 4 of
                Inl e \<Rightarrow> (Some e, self2, t1)
              | Inr percentage \<Rightarrow>
            (case int_to_float (int_of (self_width self2)) of
                Inl e \<Rightarrow> (Some e, self2, t1)
              | Inr width_f \<Rightarrow>
            (case py_round (fmul p width_f) of
                Inl e \<Rightarrow> (Some e, self2, t1)
              | Inr completed \<Rightarrow>
               (let remaining = int_of (self_width self2) - completed;
                    percentage' = (if fle percentage (Fin 100) then percentage else Fin 100)
                in if flt p (Fin 0)
                   then display E percentage' completed remaining
                          (self2\<lparr>self_progress := EPS\<rparr>, t1)
                   else if fgt p (Fin 1) then (None, self2, t1)
                   else display E percentage' completed remaining (self2, t1)))))))"

subsection \<open>The printed line, for the statements below\<close>

definition ICON_of :: "bool \<Rightarrow> pystr" where
  \<comment> \<open>U+221A when done, \<^verbatim>\<open>@\<close> otherwise\<close>
  "ICON_of done = (if done then [8730] else [64])"

definition text_colour :: "env \<Rightarrow> bool \<Rightarrow> pystr" where
  "text_colour E done = (if done then Fore_GREEN E else Fore_RED E)"

definition progress_colour :: "env \<Rightarrow> bool \<Rightarrow> pystr" where
  "progress_colour E done = (if done then Fore_GREEN E else Fore_YELLOW E)"

definition rendered_line ::
  "env \<Rightarrow> bool \<Rightarrow> pystr \<Rightarrow> pyfloat \<Rightarrow> int \<Rightarrow> int \<Rightarrow> pystr \<Rightarrow> pystr" where
  \<comment> \<open>the line with its colour codes: status glyph, label, the two runs of cells, the
      bracketed percentage and a last segment \<open>tail\<close>\<close>
  "rendered_line E done label percentage completed remaining tail =
     ascii '' '' @ text_colour E done @ ICON_of done
     @ ascii '' '' @ text_colour E done @ label
     @ ascii '' '' @ progress_colour E done @ repeated SYMBOL completed
     @ Fore_BLACK E @ repeated SYMBOL remaining
     @ ascii '' '' @ text_colour E done
     @ ascii ''['' @ rjust 6 (format_f 2 percentage) @ ascii '' %'' @ ascii '']''
     @ ascii '' '' @ text_colour E done @ tail"

definition written :: "env \<Rightarrow> int \<Rightarrow> int \<Rightarrow> pystr \<Rightarrow> pystr \<Rightarrow> exn option \<times> pystr" where
  \<comment> \<open>what printing a line with the given cell counts and ending raises, and the
      characters that reach standard output\<close>
  "written E completed remaining line ending =
     (case str_repeat E SYMBOL completed of Inl e \<Rightarrow> (Some e, []) | Inr filled \<Rightarrow>
      case str_repeat E SYMBOL remaining of Inl e \<Rightarrow> (Some e, []) | Inr unfilled \<Rightarrow>
        if capacity E < length line then (Some MemoryError, [])
        else if \<not> list_all (encodable E) line then (Some UnicodeEncodeError, [])
        else if \<not> list_all (encodable E) ending then (Some UnicodeEncodeError, line)
        else (None, line @ ending))"

definition fits :: "env \<Rightarrow> pystr \<Rightarrow> bool" where
  \<comment> \<open>a text the interpreter has memory for and standard output can encode\<close>
  "fits E s = (length s \<le> capacity E \<and> list_all (encodable E) s)"

definition eta_of :: "pyfloat \<Rightarrow> pyfloat \<Rightarrow> exn + pyfloat" where
  \<comment> \<open>line 178: \<^verbatim>\<open>(elapsed / progress) * (1 - progress) + 1\<close> in float arithmetic\<close>
  "eta_of elapsed p = (case fdiv elapsed p of Inl e \<Rightarrow> Inl e
     | Inr q \<Rightarrow> Inr (fadd (fmul q (fsub (Fin 1) p)) (Fin 1)))"

definition eta_string :: "pyfloat \<Rightarrow> pyfloat \<Rightarrow> exn + pystr" where
  \<comment> \<open>lines 178 and 179 together\<close>
  "eta_string elapsed p = (case eta_of elapsed p of Inl e \<Rightarrow> Inl e
     | Inr eta \<Rightarrow> eta_format eta)"

definition percentage_of :: "pyfloat \<Rightarrow> exn + pyfloat" where
  \<comment> \<open>lines 146 and 152: the displayed percentage of a fraction\<close>
  "percentage_of p = (case py_round_nd (fmul p (Fin 100)) 4 of Inl e \<Rightarrow> Inl e
     | Inr x \<Rightarrow> Inr (if fle x (Fin 100) then x else Fin 100))"

definition completed_of :: "pyfloat \<Rightarrow> int \<Rightarrow> exn + int" where
  \<comment> \<open>line 147: the number of filled cells for a fraction and a bar width\<close>
  "completed_of p w = (case int_to_float w of Inl e \<Rightarrow> Inl e
     | Inr width_f \<Rightarrow> py_round (fmul p width_f))"

definition started :: "env \<Rightarrow> ProgressBar \<times> io \<Rightarrow> pyfloat" where
  \<comment> \<open>the start time an update works with: the stored one, or else the next reading\<close>
  "started E st = (case self_start (fst st) of None \<Rightarrow> clock E (ticks (snd st)) | Some s \<Rightarrow> s)"

definition elapsed_at :: "env \<Rightarrow> ProgressBar \<times> io \<Rightarrow> pyfloat" where
  \<comment> \<open>line 176: the reading taken for the display, minus the start time\<close>
  "elapsed_at E st = fsub (clock E (ticks (snd (start_timer E st)))) (started E st)"

definition in_range :: "pyfloat \<Rightarrow> bool" where
  \<comment> \<open>a finite value within the float range\<close>
  "in_range a = (case a of Fin r \<Rightarrow> \<bar>r\<bar> \<le> MAXF | NZ \<Rightarrow> True | _ \<Rightarrow> False)"

definition reading_ok :: "pyfloat \<Rightarrow> bool" where
  \<comment> \<open>a reading of the performance counter: finite and not negative\<close>
  "reading_ok a = (case a of Fin r \<Rightarrow> 0 \<le> r \<and> r \<le> MAXF | _ \<Rightarrow> False)"

definition timing_ok :: "env \<Rightarrow> ProgressBar \<times> io \<Rightarrow> bool" where
  "timing_ok E st =
     (reading_ok (started E st) \<and> reading_ok (clock E (ticks (snd (start_timer E st)))))"

definition width_in_float_range :: "ProgressBar \<Rightarrow> bool" where
  \<comment> \<open>the bar width converts to a float, as \<^verbatim>\<open>self._progress * self._width\<close> needs\<close>
  "width_in_float_range self =
     (case int_to_float (int_of (self_width self)) of Inl e \<Rightarrow> False | Inr a \<Rightarrow> True)"

definition claimed_line :: "pystr \<Rightarrow> pystr \<Rightarrow> pystr \<Rightarrow> pystr \<Rightarrow> pyfloat \<Rightarrow> pystr \<Rightarrow> pystr" where
  \<comment> \<open>the in-progress line as the specification lists its parts: no colour codes, and
      the percent sign directly after the number\<close>
  "claimed_line glyph label filled unfilled percentage mmss =
     ascii '' '' @ glyph @ ascii '' '' @ label @ ascii '' '' @ filled @ unfilled
     @ ascii '' '' @ ascii ''['' @ rjust 6 (format_f 2 percentage) @ ascii ''%]''
     @ ascii '' '' @ ascii ''ETA: '' @ mmss"

subsection \<open>Concrete surroundings for evaluation\<close>

definition demo_env :: env where
  \<comment> \<open>colorama's ANSI codes, a clock that advances ten seconds per reading, memory
      for a million characters, and a standard output in UTF-8\<close>
  "demo_env = \<lparr>Fore_GREEN = 27 # ascii ''[32m'', Fore_RED = 27 # ascii ''[31m'',
                Fore_YELLOW = 27 # ascii ''[33m'', Fore_BLACK = 27 # ascii ''[30m'',
                clock = (\<lambda>n. Fin (of_nat n * 10)), capacity = 1000000,
                encodable = (\<lambda>c. c < 55296 \<or> 57344 \<le> c \<and> c < 1114112)\<rparr>"

definition plain_env :: env where
  \<comment> \<open>a terminal without colours: every code is the empty string\<close>
  "plain_env = \<lparr>Fore_GREEN = [], Fore_RED = [], Fore_YELLOW = [], Fore_BLACK = [],
                 clock = (\<lambda>n. Fin (of_nat n * 10)), capacity = 1000000,
                 encodable = (\<lambda>c. c < 55296 \<or> 57344 \<le> c \<and> c < 1114112)\<rparr>"

definition fresh_io :: io where
  "fresh_io = \<lparr>ticks = 0, stdout = [], cursor_visible = True\<rparr>"

definition new_bar :: "int \<Rightarrow> int \<Rightarrow> ProgressBar" where
  \<comment> \<open>the object \<^verbatim>\<open>ProgressBar(n, "Progress", w)\<close> returns, see \<open>init_new_bar\<close>\<close>
  "new_bar n w = \<lparr>self_start = None, self_total = PyInt n, self_text = ascii ''Progress'',
                   self_width = PyInt w, self_progress = EPS, self_LAST = None\<rparr>"

section \<open>Facts about the float model\<close>

subsection \<open>Powers of two and the binary logarithm\<close>

lemma pow2_powi: "pow2 e = 2 powi e"
  by (simp add: pow2_def power_int_def power_inverse [symmetric] inverse_eq_divide power_one_over)

lemma pow2_pos [simp]: "0 < pow2 e"
  by (simp add: pow2_powi)

lemma pow2_add: "pow2 (a + b) = pow2 a * pow2 b"
  by (simp add: pow2_powi power_int_add)

lemma pow2_diff: "pow2 (a - b) = pow2 a / pow2 b"
  by (simp add: pow2_powi power_int_diff)

lemma pow2_mono: "a \<le> b \<Longrightarrow> pow2 a \<le> pow2 b"
  by (simp add: pow2_powi power_int_increasing)

lemma pow2_strict_mono: "a < b \<Longrightarrow> pow2 a < pow2 b"
  by (simp add: pow2_powi power_int_strict_increasing)

lemma pow2_less_cancel: "pow2 a < pow2 b \<Longrightarrow> a < b"
  using pow2_mono [of b a] by (cases "a < b") auto

lemma pow2_nat: "0 \<le> e \<Longrightarrow> pow2 e = 2 ^ nat e"
  by (simp add: pow2_def)

lemma ilog2_bounds:
  assumes "0 < x"
  shows "pow2 (ilog2 x) \<le> x" and "x < pow2 (ilog2 x + 1)"
proof -
  obtain p q where pq: "quotient_of x = (p, q)" by (cases "quotient_of x")
  have q: "0 < q" using pq quotient_of_denom_pos by blast
  have x: "x = of_int p / of_int q" using pq by (rule quotient_of_div)
  have p: "0 < p" using assms q x by (simp add: zero_less_divide_iff)
  define d where "d = bitlen p - bitlen q"
  have bp: "1 \<le> bitlen p" and bq: "1 \<le> bitlen q"
    using p q by (auto simp: bitlen_alt_def)
  have p1: "pow2 (bitlen p - 1) \<le> of_int p"
  proof -
    have "(2::int) ^ nat (bitlen p - 1) \<le> p" using bitlen_bounds [OF p] by simp
    then have "(of_int ((2::int) ^ nat (bitlen p - 1)) :: rat) \<le> of_int p"
      by (simp only: of_int_le_iff)
    then show ?thesis using bp by (simp add: pow2_nat)
  qed
  have p2: "of_int p < pow2 (bitlen p)"
  proof -
    have "p < (2::int) ^ nat (bitlen p)" using bitlen_bounds [OF p] by simp
    then have "(of_int p :: rat) < of_int ((2::int) ^ nat (bitlen p))"
      by (simp only: of_int_less_iff)
    then show ?thesis using bp by (simp add: pow2_nat)
  qed
  have q1: "pow2 (bitlen q - 1) \<le> of_int q"
  proof -
    have "(2::int) ^ nat (bitlen q - 1) \<le> q" using bitlen_bounds [OF q] by simp
    then have "(of_int ((2::int) ^ nat (bitlen q - 1)) :: rat) \<le> of_int q"
      by (simp only: of_int_le_iff)
    then show ?thesis using bq by (simp add: pow2_nat)
  qed
  have q2: "of_int q < pow2 (bitlen q)"
  proof -
    have "q < (2::int) ^ nat (bitlen q)" using bitlen_bounds [OF q] by simp
    then have "(of_int q :: rat) < of_int ((2::int) ^ nat (bitlen q))"
      by (simp only: of_int_less_iff)
    then show ?thesis using bq by (simp add: pow2_nat)
  qed
  have qpos: "(0::rat) < of_int q" using q by simp
  have lo: "pow2 (d - 1) < x"
  proof -
    have "pow2 (d - 1) * of_int q < pow2 (d - 1) * pow2 (bitlen q)"
      using q2 by simp
    also have "\<dots> = pow2 (bitlen p - 1)"
      by (simp add: d_def flip: pow2_add)
    also have "\<dots> \<le> of_int p" by (rule p1)
    finally show ?thesis using qpos by (simp add: x pos_less_divide_eq)
  qed
  have hi: "x < pow2 (d + 1)"
  proof -
    have "of_int p < pow2 (bitlen p)" by (rule p2)
    also have "\<dots> = pow2 (d + 1) * pow2 (bitlen q - 1)"
      by (simp add: d_def flip: pow2_add)
    also have "\<dots> \<le> pow2 (d + 1) * of_int q"
      using q1 by simp
    finally show ?thesis using qpos by (simp add: x pos_divide_less_eq)
  qed
  have il: "ilog2 x = (if pow2 d \<le> x then d else d - 1)"
    by (simp add: ilog2_def pq d_def Let_def)
  show "pow2 (ilog2 x) \<le> x" using lo by (simp add: il)
  show "x < pow2 (ilog2 x + 1)" using hi by (auto simp: il not_le)
qed

lemma ilog2_unique:
  assumes "0 < x" "pow2 e \<le> x" "x < pow2 (e + 1)"
  shows "ilog2 x = e"
proof -
  have "pow2 (ilog2 x) < pow2 (e + 1)"
    using ilog2_bounds(1) [OF assms(1)] assms(3) by simp
  then have a: "ilog2 x < e + 1" by (rule pow2_less_cancel)
  have "pow2 e < pow2 (ilog2 x + 1)"
    using ilog2_bounds(2) [OF assms(1)] assms(2) by simp
  then have "e < ilog2 x + 1" by (rule pow2_less_cancel)
  with a show ?thesis by simp
qed

subsection \<open>Rounding to an integer\<close>

lemma rhe_of_int [simp]: "rhe (of_int m) = m"
  by (simp add: rhe_def)

lemma rhe_cases:
  obtains "x - of_int \<lfloor>x\<rfloor> < 1 / 2" "rhe x = \<lfloor>x\<rfloor>"
  | "1 / 2 < x - of_int \<lfloor>x\<rfloor>" "rhe x = \<lfloor>x\<rfloor> + 1"
  | "x - of_int \<lfloor>x\<rfloor> = 1 / 2" "rhe x = \<lfloor>x\<rfloor> \<or> rhe x = \<lfloor>x\<rfloor> + 1"
proof (cases "x - of_int \<lfloor>x\<rfloor> < 1 / 2")
  case True
  then have "rhe x = \<lfloor>x\<rfloor>" by (simp add: rhe_def Let_def)
  with True that(1) show ?thesis by blast
next
  case False
  show ?thesis
  proof (cases "1 / 2 < x - of_int \<lfloor>x\<rfloor>")
    case True
    with False have "rhe x = \<lfloor>x\<rfloor> + 1" by (simp add: rhe_def Let_def)
    with True that(2) show ?thesis by blast
  next
    case F2: False
    with False have e: "x - of_int \<lfloor>x\<rfloor> = 1 / 2" by simp
    have "rhe x = \<lfloor>x\<rfloor> \<or> rhe x = \<lfloor>x\<rfloor> + 1"
      using False F2 by (cases "even \<lfloor>x\<rfloor>") (simp_all add: rhe_def Let_def)
    with e that(3) show ?thesis by blast
  qed
qed

lemma rhe_close: "\<bar>of_int (rhe x) - x\<bar> \<le> 1 / 2"
proof -
  have fl: "of_int \<lfloor>x\<rfloor> \<le> x" "x < of_int \<lfloor>x\<rfloor> + 1" by linarith+
  show ?thesis
  proof (cases x rule: rhe_cases)
    case 1
    with fl show ?thesis by simp
  next
    case 2
    with fl show ?thesis by simp
  next
    case 3
    then show ?thesis by auto
  qed
qed

lemma rhe_eqI:
  assumes "\<bar>x - of_int m\<bar> < 1 / 2"
  shows "rhe x = m"
proof -
  have "\<bar>of_int (rhe x) - (of_int m :: rat)\<bar> < 1"
    using rhe_close [of x] assms by linarith
  then have "\<bar>(of_int (rhe x - m) :: rat)\<bar> < of_int 1" by simp
  then have "\<bar>rhe x - m\<bar> < 1" unfolding of_int_abs [symmetric] by (simp only: of_int_less_iff)
  then show ?thesis by simp
qed

lemma rhe_le: 
  assumes "x \<le> of_int n" shows "rhe x \<le> n"
proof -
  have f: "\<lfloor>x\<rfloor> \<le> n" using assms by (simp add: floor_le_iff) 
  show ?thesis
  proof (cases "\<lfloor>x\<rfloor> = n")
    case True
    then have "of_int n \<le> x" by (metis of_int_floor_le)
    with assms have "x = of_int n" by simp
    then show ?thesis by simp
  next
    case False
    with f have "\<lfloor>x\<rfloor> + 1 \<le> n" by simp
    then show ?thesis by (auto simp: rhe_def Let_def)
  qed
qed

lemma rhe_ge:
  assumes "of_int n \<le> x" shows "n \<le> rhe x"
proof -
  have "n \<le> \<lfloor>x\<rfloor>" using assms by (simp add: le_floor_iff)
  then show ?thesis by (auto simp: rhe_def Let_def)
qed

lemma rhe_abs_le: "\<bar>x\<bar> \<le> of_int n \<Longrightarrow> \<bar>rhe x\<bar> \<le> n"
  using rhe_le [of x n] rhe_ge [of "- n" x] by (simp add: abs_le_iff)

lemma rhe_nonneg: "0 \<le> x \<Longrightarrow> 0 \<le> rhe x"
  using rhe_ge [of 0 x] by simp

lemma rhe_nonpos: "x \<le> 0 \<Longrightarrow> rhe x \<le> 0"
  using rhe_le [of x 0] by simp

subsection \<open>Rounding to binary64\<close>

lemma pow2_nonzero [simp]: "pow2 e \<noteq> 0"
  using pow2_pos [of e] by (metis less_irrefl)

lemma abs_pow2 [simp]: "\<bar>pow2 e\<bar> = pow2 e"
  using pow2_pos [of e] by (metis abs_of_pos)

lemma pow2_shift53: "pow2 (e + 1) = 2 ^ 53 * pow2 (e - 52)"
proof -
  have "e + 1 = 53 + (e - 52)" by arith
  then have "pow2 (e + 1) = pow2 (53 + (e - 52))" by (simp only:)
  also have "\<dots> = pow2 53 * pow2 (e - 52)" by (rule pow2_add)
  finally show ?thesis by (simp add: pow2_nat)
qed

lemma MAXF_pow2: "MAXF = (2 ^ 53 - 1) * pow2 971"
  by (simp add: MAXF_def pow2_nat)

lemma MAXF_pos: "0 < MAXF"
  by (simp add: MAXF_pow2)

lemma MAXF_less: "MAXF < pow2 1024"
proof -
  have "pow2 1024 = 2 ^ 53 * pow2 971"
    using pow2_add [of 53 971] by (simp add: pow2_nat)
  then show ?thesis by (simp add: MAXF_pow2 algebra_simps)
qed

lemma pow2_le_MAXF: "e \<le> 1023 \<Longrightarrow> pow2 e \<le> MAXF"
proof -
  assume "e \<le> 1023"
  then have "pow2 e \<le> pow2 1023" by (rule pow2_mono)
  also have "pow2 1023 = 2 ^ 52 * pow2 971"
    using pow2_add [of 52 971] by (simp add: pow2_nat)
  also have "\<dots> \<le> MAXF" by (simp add: MAXF_pow2)
  finally show ?thesis .
qed

lemma rnd_unfold:
  assumes "x \<noteq> 0" "e = max (ilog2 \<bar>x\<bar>) (- 1022)" "m = rhe (x / pow2 (e - 52))"
  shows "rnd x = (if MAXF < \<bar>of_int m * pow2 (e - 52)\<bar> then (if 0 < x then PInf else NInf)
                  else if m = 0 then (if x < 0 then NZ else Fin 0)
                  else Fin (of_int m * pow2 (e - 52)))"
  using assms by (simp add: rnd_def Let_def)

lemma rnd_eqI:
  assumes "x \<noteq> 0" "pow2 e \<le> \<bar>x\<bar>" "\<bar>x\<bar> < pow2 (e + 1)" "- 1022 \<le> e"
    and "\<bar>x / pow2 (e - 52) - of_int m\<bar> < 1 / 2" "m \<noteq> 0"
    and "\<bar>of_int m * pow2 (e - 52)\<bar> \<le> MAXF"
  shows "rnd x = Fin (of_int m * pow2 (e - 52))"
proof -
  have il: "ilog2 \<bar>x\<bar> = e" using assms(1-3) by (intro ilog2_unique) auto
  have e: "e = max (ilog2 \<bar>x\<bar>) (- 1022)" using il assms(4) by simp
  have m: "m = rhe (x / pow2 (e - 52))" using rhe_eqI [OF assms(5)] by simp
  show ?thesis using assms(6,7) by (simp add: rnd_unfold [OF assms(1) e m])
qed

lemma rnd_exact:
  assumes x: "x = of_int m * pow2 k" and m: "m \<noteq> 0" "\<bar>m\<bar> < 2 ^ 53"
    and k: "- 1074 \<le> k" "k \<le> 971"
  shows "rnd x = Fin x"
proof -
  have x0: "x \<noteq> 0" using x m by simp
  have ax: "\<bar>x\<bar> = of_int \<bar>m\<bar> * pow2 k" by (simp add: x abs_mult)
  have mb: "(of_int \<bar>m\<bar> :: rat) < 2 ^ 53"
  proof -
    have "(of_int \<bar>m\<bar> :: rat) < of_int (2 ^ 53)" using m(2) by (simp only: of_int_less_iff)
    then show ?thesis by simp
  qed
  have mb': "(of_int \<bar>m\<bar> :: rat) \<le> 2 ^ 53 - 1"
  proof -
    have "\<bar>m\<bar> \<le> 2 ^ 53 - 1" using m(2) by simp
    then have "(of_int \<bar>m\<bar> :: rat) \<le> of_int (2 ^ 53 - 1)" by (simp only: of_int_le_iff)
    then show ?thesis by simp
  qed
  define L where "L = ilog2 \<bar>x\<bar>"
  define e where "e = max L (- 1022)"
  have "pow2 L \<le> \<bar>x\<bar>" using ilog2_bounds(1) [of "\<bar>x\<bar>"] x0 by (simp add: L_def)
  also have "\<bar>x\<bar> < 2 ^ 53 * pow2 k" using mb by (simp add: ax)
  also have "\<dots> = pow2 (k + 53)" using pow2_add [of k 53] by (simp add: pow2_nat)
  finally have "L < k + 53" by (rule pow2_less_cancel)
  then have ek: "e - 52 \<le> k" using k(1) by (simp add: e_def)
  define j where "j = nat (k - (e - 52))"
  have pk: "pow2 k = 2 ^ j * pow2 (e - 52)"
    using pow2_add [of "k - (e - 52)" "e - 52"] ek by (simp add: j_def pow2_nat)
  have q: "x / pow2 (e - 52) = of_int (m * 2 ^ j)"
    by (simp add: x pk)
  have mm: "m * 2 ^ j = rhe (x / pow2 (e - 52))" by (simp only: q rhe_of_int)
  have r: "of_int (m * 2 ^ j) * pow2 (e - 52) = x" by (simp add: x pk)
  have "\<bar>x\<bar> \<le> (2 ^ 53 - 1) * pow2 k" using mb' by (simp add: ax)
  also have "\<dots> \<le> (2 ^ 53 - 1) * pow2 971"
    using pow2_mono [OF k(2)] by (simp add: mult_left_mono)
  finally have le: "\<bar>x\<bar> \<le> MAXF" by (simp add: MAXF_pow2)
  have e': "e = max (ilog2 \<bar>x\<bar>) (- 1022)" by (simp add: e_def L_def)
  show ?thesis
    unfolding rnd_unfold [OF x0 e' mm] r using le m by simp
qed

lemma rnd_int: "\<bar>i\<bar> < 2 ^ 53 \<Longrightarrow> rnd (of_int i) = Fin (of_int i)"
proof (cases "i = 0")
  case True
  then show ?thesis by (simp add: rnd_def)
next
  case False
  assume "\<bar>i\<bar> < 2 ^ 53"
  with False show ?thesis by (intro rnd_exact [where m = i and k = 0]) (simp_all add: pow2_def)
qed

lemma rnd_Fin_bound: "rnd x = Fin y \<Longrightarrow> \<bar>y\<bar> \<le> MAXF"
  by (cases "x = 0") (auto simp: rnd_def Let_def MAXF_pos less_imp_le split: if_splits)

lemma rnd_finite:
  assumes "\<bar>x\<bar> \<le> MAXF"
  shows "is_finite (rnd x)"
proof (cases "x = 0")
  case True
  then show ?thesis by (simp add: rnd_def is_finite_def)
next
  case x0: False
  define L where "L = ilog2 \<bar>x\<bar>"
  define e where "e = max L (- 1022)"
  define m where "m = rhe (x / pow2 (e - 52))"
  have lo: "pow2 L \<le> \<bar>x\<bar>" and hi: "\<bar>x\<bar> < pow2 (L + 1)"
    using ilog2_bounds [of "\<bar>x\<bar>"] x0 by (simp_all add: L_def)
  have "pow2 L < pow2 1024" using lo assms MAXF_less by linarith
  then have L: "L \<le> 1023" using pow2_less_cancel [of L 1024] by simp
  have r: "\<bar>of_int m * pow2 (e - 52)\<bar> \<le> MAXF"
  proof (cases "e \<le> 1022")
    case True
    have "\<bar>x\<bar> < pow2 (e + 1)" using hi pow2_mono [of "L + 1" "e + 1"] by (simp add: e_def)
    also have "\<dots> = 2 ^ 53 * pow2 (e - 52)" by (rule pow2_shift53)
    finally have "\<bar>x / pow2 (e - 52)\<bar> < 2 ^ 53" by (simp add: abs_divide pos_divide_less_eq)
    then have "\<bar>x / pow2 (e - 52)\<bar> \<le> of_int (2 ^ 53)" by simp
    then have "\<bar>m\<bar> \<le> 2 ^ 53" unfolding m_def by (rule rhe_abs_le)
    then have "(of_int \<bar>m\<bar> :: rat) \<le> of_int (2 ^ 53)" by (simp only: of_int_le_iff)
    then have "\<bar>of_int m * pow2 (e - 52)\<bar> \<le> 2 ^ 53 * pow2 (e - 52)"
      by (simp add: abs_mult)
    also have "\<dots> = pow2 (e + 1)" by (rule pow2_shift53 [symmetric])
    also have "\<dots> \<le> MAXF" using True by (intro pow2_le_MAXF) simp
    finally show ?thesis .
  next
    case False
    with L have e: "e = 1023" by (simp add: e_def)
    have "\<bar>x\<bar> \<le> (2 ^ 53 - 1) * pow2 (e - 52)" using assms by (simp add: e MAXF_pow2)
    then have "\<bar>x / pow2 (e - 52)\<bar> \<le> 2 ^ 53 - 1" by (simp add: abs_divide pos_divide_le_eq)
    then have "\<bar>x / pow2 (e - 52)\<bar> \<le> of_int (2 ^ 53 - 1)" by simp
    then have "\<bar>m\<bar> \<le> 2 ^ 53 - 1" unfolding m_def by (rule rhe_abs_le)
    then have "(of_int \<bar>m\<bar> :: rat) \<le> of_int (2 ^ 53 - 1)" by (simp only: of_int_le_iff)
    then have "\<bar>of_int m * pow2 (e - 52)\<bar> \<le> (2 ^ 53 - 1) * pow2 (e - 52)"
      by (simp add: abs_mult)
    then show ?thesis by (simp add: e MAXF_pow2)
  qed
  have e': "e = max (ilog2 \<bar>x\<bar>) (- 1022)" by (simp add: e_def L_def)
  show ?thesis
    unfolding rnd_unfold [OF x0 e' m_def] using r by (simp add: is_finite_def)
qed

section \<open>Construction\<close>

lemma init_cases:
  "init tot tx wd =
     (if \<not> isinstance_int tot \<or> \<not> isinstance_str tx \<or> (wd \<noteq> PyNone \<and> \<not> isinstance_int wd)
      then Inl ValueError
      else Inr \<lparr>self_start = None, self_total = tot,
                self_text = (case tx of PyStr s \<Rightarrow> s | _ \<Rightarrow> []),
                self_width = (if wd = PyNone
                   then PyInt (80 - (int (length (case tx of PyStr s \<Rightarrow> s | _ \<Rightarrow> [])) + 15))
                   else wd),
                self_progress = EPS, self_LAST = None\<rparr>)"
  by (cases tx) (simp_all add: init_def set_total_def set_text_def set_width_def blank_def
      isinstance_str_def)

lemma init_new_bar: "init (PyInt n) default_text (PyInt w) = Inr (new_bar n w)"
  by (simp add: init_cases new_bar_def default_text_def isinstance_int_def isinstance_str_def)

lemma init_default_width: "init (PyInt n) default_text PyNone = Inr (new_bar n 57)"
  by (simp add: init_cases new_bar_def default_text_def isinstance_int_def isinstance_str_def
      ascii_def)

text \<open>
  Claim C8.  The constructor raises \<^verbatim>\<open>ValueError\<close> exactly when \<^verbatim>\<open>total\<close> is not an
  instance of \<^verbatim>\<open>int\<close>, or \<^verbatim>\<open>text\<close> is not a string, or a \<^verbatim>\<open>width\<close> other than
  \<^verbatim>\<open>None\<close> is not an instance of \<^verbatim>\<open>int\<close>.  It either raises, and then there is no
  object, or returns an object whose accessors give back the supplied total, text and
  (when supplied) width.
\<close>

theorem init_validation:
  "(init tot tx wd = Inl ValueError \<longleftrightarrow>
      \<not> isinstance_int tot \<or> \<not> isinstance_str tx \<or> (wd \<noteq> PyNone \<and> \<not> isinstance_int wd))
   \<and> (init tot tx wd = Inl ValueError \<or>
      (\<exists>self. init tot tx wd = Inr self \<and> total_getter self = tot \<and> text_getter self = tx
         \<and> (wd \<noteq> PyNone \<longrightarrow> width_getter self = wd)))"
  by (cases tx) (simp_all add: init_cases total_getter_def text_getter_def width_getter_def
      isinstance_str_def)

theorem init_validation_witness:
  "init (PyFloat (Fin 1)) default_text PyNone = Inl ValueError
   \<and> init (PyInt 3) (PyInt 4) PyNone = Inl ValueError
   \<and> init (PyInt 3) default_text (PyStr []) = Inl ValueError
   \<and> (\<exists>self. init (PyInt 3) default_text (PyInt 20) = Inr self
        \<and> total_getter self = PyInt 3 \<and> text_getter self = default_text
        \<and> width_getter self = PyInt 20)"
  using init_validation [of "PyFloat (Fin 1)" default_text PyNone]
    init_validation [of "PyInt 3" "PyInt 4" PyNone]
    init_validation [of "PyInt 3" default_text "PyStr []"]
    init_validation [of "PyInt 3" default_text "PyInt 20"]
  by (auto simp: isinstance_int_def isinstance_str_def default_text_def)

section \<open>Updates that raise\<close>

text \<open>
  Claim C9.  When the stored total is zero, \<^verbatim>\<open>update(current)\<close> raises
  \<^verbatim>\<open>ZeroDivisionError\<close> for every integer \<^verbatim>\<open>current\<close>.  The error comes from
  \<^verbatim>\<open>current / total\<close>: the stored fraction is not yet overwritten, nothing is written
  and the cursor is untouched.  The constructor does not reject a zero total.
\<close>

theorem update_total_zero:
  "(\<exists>self. init (PyInt 0) default_text wd = Inr self \<and> int_of (self_total self) = 0
        \<or> (wd \<noteq> PyNone \<and> \<not> isinstance_int wd))
   \<and> (int_of (self_total self) = 0 \<longrightarrow>
        (case update E current (self, t) of (r, self', t') \<Rightarrow>
           r = Some ZeroDivisionError \<and> stdout t' = stdout t
           \<and> cursor_visible t' = cursor_visible t \<and> self_progress self' = self_progress self
           \<and> self_total self' = self_total self))"
  by (simp add: init_cases default_text_def isinstance_int_def isinstance_str_def int_of_def
      update_def start_timer_def py_truediv_def perf_counter_def split: option.splits)

theorem update_total_zero_witness:
  "int_of (self_total (new_bar 0 57)) = 0
   \<and> fst (update demo_env 5 (new_bar 0 57, fresh_io)) = Some ZeroDivisionError
   \<and> stdout (snd (snd (update demo_env 5 (new_bar 0 57, fresh_io)))) = []"
proof -
  have h: "int_of (self_total (new_bar 0 57)) = 0"
    by (simp add: new_bar_def int_of_def)
  from update_total_zero [where wd = PyNone and self = "new_bar 0 57" and E = demo_env
      and current = 5 and t = fresh_io] h
  show ?thesis
    by (auto simp: fresh_io_def split: prod.splits)
qed

section \<open>The method \<^verbatim>\<open>update\<close>, step by step\<close>

lemma str_repeat_Inr:
  "str_repeat E s n = Inr x \<Longrightarrow> x = repeated s n"
  by (auto simp: str_repeat_def repeated_def split: if_splits)

lemma str_repeat_ok:
  assumes "index_sized n" "index_sized (int (length s) * n)" "length s * nat n \<le> capacity E"
  shows "str_repeat E s n = Inr (repeated s n)"
  using assms by (auto simp: str_repeat_def repeated_def)

lemma length_repeated_SYMBOL [simp]: "length (repeated SYMBOL n) = nat n"
  by (simp add: repeated_def SYMBOL_def length_concat comp_def sum_list_replicate)

lemma str_repeat_SYMBOL_ok:
  assumes "index_sized n" "nat n \<le> capacity E"
  shows "str_repeat E SYMBOL n = Inr (repeated SYMBOL n)"
  using assms by (intro str_repeat_ok) (simp_all add: SYMBOL_def)

lemma print_bar_eq:
  "print_bar E [''text'' \<mapsto> text_colour E d, ''progress'' \<mapsto> progress_colour E d,
                ''remaining'' \<mapsto> Fore_BLACK E] (ICON_of d) label c r
       (rjust 6 (format_f 2 pct) @ ascii '' %'') tail ending t =
     (case written E c r (rendered_line E d label pct c r tail) ending of
        (x, w) \<Rightarrow> (x, t\<lparr>stdout := stdout t @ w\<rparr>))"
proof (cases "str_repeat E SYMBOL c")
  case (Inl e)
  then show ?thesis by (simp add: print_bar_def written_def)
next
  case c: (Inr a)
  show ?thesis
  proof (cases "str_repeat E SYMBOL r")
    case (Inl e)
    then show ?thesis using c by (simp add: print_bar_def written_def)
  next
    case r: (Inr b)
    have a: "a = repeated SYMBOL c" and b: "b = repeated SYMBOL r"
      using c r by (auto dest: str_repeat_Inr)
    show ?thesis
      using c r unfolding a b
      by (simp add: print_bar_def written_def fstring_def print_def rendered_line_def
          dict_get_def)
  qed
qed

lemma written_None:
  "written E c r line ending = (None, w) \<longleftrightarrow>
     (\<exists>a. str_repeat E SYMBOL c = Inr a) \<and> (\<exists>b. str_repeat E SYMBOL r = Inr b) \<and>
     fits E line \<and> list_all (encodable E) ending \<and> w = line @ ending"
  by (auto simp: written_def fits_def split: sum.splits)

lemma written_ok:
  assumes "index_sized c" "index_sized r" "nat c \<le> capacity E" "nat r \<le> capacity E"
    and "fits E line" "list_all (encodable E) ending"
  shows "written E c r line ending = (None, line @ ending)"
  using assms by (simp add: written_None str_repeat_SYMBOL_ok)

lemma display_eq:
  assumes "self_start self = Some start"
  shows "display E pct c r (self, t) =
     (case eta_string (fsub (clock E (ticks t)) start) (self_progress self) of
        Inl e \<Rightarrow> (Some e, self, t\<lparr>ticks := Suc (ticks t),
                    cursor_visible := feq (self_progress self) (Fin 1)\<rparr>)
      | Inr ef \<Rightarrow>
         (case written E c r
                 (rendered_line E (feq (self_progress self) (Fin 1)) (self_text self) pct c r
                   (if flt (self_progress self) (Fin 1) then ascii ''ETA: '' @ ef
                    else ascii ''Elapsed: '' @ format_f 2 (fsub (clock E (ticks t)) start)
                           @ ascii ''s''))
                 (if flt (self_progress self) (Fin 1) then [13] else [10]) of
            (Some e, w) \<Rightarrow>
              (Some e, self, t\<lparr>ticks := Suc (ticks t),
                 cursor_visible := feq (self_progress self) (Fin 1),
                 stdout := stdout t @ w\<rparr>)
          | (None, w) \<Rightarrow>
              (None, self\<lparr>self_LAST := Some (clock E (Suc (ticks t)))\<rparr>,
               t\<lparr>ticks := Suc (Suc (ticks t)),
                 cursor_visible := feq (self_progress self) (Fin 1),
                 stdout := stdout t @ w\<rparr>)))"
proof -
  note bar =
    print_bar_eq [where d = True, unfolded text_colour_def progress_colour_def ICON_of_def
      if_True]
    print_bar_eq [where d = False, unfolded text_colour_def progress_colour_def ICON_of_def
      if_False]
  show ?thesis
    using assms
    by (cases "feq (self_progress self) (Fin 1)"; cases "flt (self_progress self) (Fin 1)")
      (simp_all add: display_def Let_def bar perf_counter_def cursor_show_def cursor_hide_def
        eta_string_def eta_of_def split: sum.splits prod.splits option.splits)
qed

lemma start_timer_eq:
  "start_timer E (self, t) =
     (self\<lparr>self_start := Some (started E (self, t))\<rparr>,
      t\<lparr>ticks := (case self_start self of None \<Rightarrow> Suc (ticks t) | Some s \<Rightarrow> ticks t)\<rparr>)"
  by (simp add: start_timer_def started_def perf_counter_def split: option.splits)

lemma update_eq:
  "update E current (self, t) = (case start_timer E (self, t) of (self1, t1) \<Rightarrow>
     (case py_truediv current (int_of (self_total self)) of
        Inl e \<Rightarrow> (Some e, self1, t1)
      | Inr p \<Rightarrow>
         (case percentage_of p of
            Inl e \<Rightarrow> (Some e, self1\<lparr>self_progress := p\<rparr>, t1)
          | Inr pct \<Rightarrow>
             (case completed_of p (int_of (self_width self)) of
                Inl e \<Rightarrow> (Some e, self1\<lparr>self_progress := p\<rparr>, t1)
              | Inr c \<Rightarrow>
                 if flt p (Fin 0)
                 then display E pct c (int_of (self_width self) - c)
                        (self1\<lparr>self_progress := EPS\<rparr>, t1)
                 else if fgt p (Fin 1) then (None, self1\<lparr>self_progress := p\<rparr>, t1)
                 else display E pct c (int_of (self_width self) - c)
                        (self1\<lparr>self_progress := p\<rparr>, t1)))))"
  by (simp add: update_def start_timer_eq percentage_of_def completed_of_def Let_def
      split: sum.splits)

section \<open>Floats that stay in range\<close>

lemma rnd_range: "rnd x = PInf \<or> rnd x = NInf \<or> in_range (rnd x)"
proof (cases "x = 0")
  case True
  then show ?thesis by (simp add: rnd_def in_range_def MAXF_pos less_imp_le)
next
  case False
  define e where "e = max (ilog2 \<bar>x\<bar>) (- 1022)"
  define m where "m = rhe (x / pow2 (e - 52))"
  show ?thesis
    unfolding rnd_unfold [OF False e_def m_def]
    by (simp add: in_range_def not_less MAXF_pos less_imp_le)
qed

lemma in_range_rnd: "\<bar>x\<bar> \<le> MAXF \<Longrightarrow> in_range (rnd x)"
  using rnd_finite [of x] rnd_range [of x] by (auto simp: is_finite_def)

lemma in_range_val: "in_range a \<Longrightarrow> \<bar>val a\<bar> \<le> MAXF"
  by (cases a) (simp_all add: in_range_def val_def MAXF_pos less_imp_le)

lemma in_range_flags:
  "in_range a \<Longrightarrow> \<not> is_nan a \<and> \<not> is_inf a"
  by (cases a) (simp_all add: in_range_def is_nan_def is_inf_def)

lemma int_to_float_in_range: "int_to_float w = Inr a \<Longrightarrow> in_range a"
  using rnd_range [of "of_int w"] by (auto simp: int_to_float_def split: pyfloat.splits)

lemma in_range_zero_signed [simp]: "in_range (zero_signed b)"
  by (simp add: zero_signed_def in_range_def MAXF_pos less_imp_le)

lemma in_range_fmul_one: "in_range a \<Longrightarrow> in_range (fmul (Fin 1) a)"
  using in_range_val [of a] in_range_flags [of a]
  by (auto simp: fmul_def is_nan_def is_inf_def is_zero_def val_def intro: in_range_rnd)

lemma fmul_zero: "in_range a \<Longrightarrow> fmul (Fin 0) a = zero_signed (signbit a)"
  using in_range_flags [of a]
  by (simp add: fmul_def is_nan_def is_inf_def is_zero_def signbit_def)

lemma py_round_in_range: "in_range a \<Longrightarrow> \<exists>c. py_round a = Inr c"
  by (cases a) (simp_all add: in_range_def py_round_def)

lemma py_round_zero_signed [simp]: "py_round (zero_signed b) = Inr 0"
  by (simp add: zero_signed_def py_round_def rhe_def)

lemma reading_in_range: "reading_ok a \<Longrightarrow> in_range a"
  by (cases a) (simp_all add: reading_ok_def in_range_def)

lemma in_range_fsub_readings:
  assumes "reading_ok a" "reading_ok b"
  shows "in_range (fsub a b)"
proof -
  obtain x y where a: "a = Fin x" "0 \<le> x" "x \<le> MAXF" and b: "b = Fin y" "0 \<le> y" "y \<le> MAXF"
    using assms by (cases a; cases b) (auto simp: reading_ok_def)
  have "\<bar>x - y\<bar> \<le> MAXF" using a b by linarith
  then have "in_range (rnd (x - y))" by (rule in_range_rnd)
  moreover have "in_range (rnd (x + 0))" using a by (intro in_range_rnd) simp
  ultimately show ?thesis
    by (auto simp: a b fsub_def fadd_def fneg_def is_nan_def is_inf_def is_zero_def val_def
        signbit_def)
qed

lemma in_range_cdiv_one: "in_range a \<Longrightarrow> in_range (cdiv a (Fin 1))"
  using in_range_val [of a] in_range_flags [of a]
  by (auto simp: cdiv_def is_nan_def is_inf_def is_zero_def val_def intro: in_range_rnd)

section \<open>Evaluation at particular values\<close>

lemma rnd_0 [simp]: "rnd 0 = Fin 0"
  by (simp add: rnd_def)

lemma rnd_1 [simp]: "rnd 1 = Fin 1"
  using rnd_int [of 1] by simp

lemma rnd_numeral [simp]:
  "\<bar>numeral n :: int\<bar> < 2 ^ 53 \<Longrightarrow> rnd (numeral n) = Fin (numeral n)"
  using rnd_int [of "numeral n"] by simp

lemma rnd_neg_numeral [simp]:
  "\<bar>numeral n :: int\<bar> < 2 ^ 53 \<Longrightarrow> rnd (- numeral n) = Fin (- numeral n)"
  using rnd_int [of "- numeral n"] by simp

lemma rhe_0 [simp]: "rhe 0 = 0"
  using rhe_of_int [of 0] by simp

lemma rhe_1 [simp]: "rhe 1 = 1"
  using rhe_of_int [of 1] by simp

lemma rhe_numeral [simp]: "rhe (numeral n) = numeral n"
  using rhe_of_int [of "numeral n"] by simp

lemma rhe_neg_numeral [simp]: "rhe (- numeral n) = - numeral n"
  using rhe_of_int [of "- numeral n"] by simp

lemma floor_rat_numeral_div [simp]:
  "\<lfloor>(numeral a :: rat) / numeral b\<rfloor> = numeral a div numeral b"
  using floor_divide_of_int_eq [where ?'a = rat, of "numeral a" "numeral b"] by simp

lemma floor_rat_one_div [simp]: "\<lfloor>(1 :: rat) / numeral b\<rfloor> = 1 div numeral b"
  using floor_divide_of_int_eq [where ?'a = rat, of 1 "numeral b"] by simp

lemma floor_rat_neg_numeral_div [simp]:
  "\<lfloor>- ((numeral a :: rat) / numeral b)\<rfloor> = - numeral a div numeral b"
  using floor_divide_of_int_eq [where ?'a = rat, of "- numeral a" "numeral b"] by simp

lemmas float_defs = fmul_def fadd_def fsub_def fneg_def cdiv_def fdiv_def flt_def feq_def
  fle_def fgt_def is_nan_def is_inf_def is_zero_def signbit_def zero_signed_def inf_signed_def
  val_def py_round_def py_int_def fmod_def ffloor_def truthy_def float_floordiv_def
  float_rem_def trunc_def

lemmas str_defs = str_int_def zfill_def rjust_def ascii_def str_digits.simps

lemma py_truediv_self: "n \<noteq> 0 \<Longrightarrow> py_truediv n n = Inr (Fin 1)"
  by (simp add: py_truediv_def)

lemma py_truediv_zero: "0 < n \<Longrightarrow> py_truediv 0 n = Inr (Fin 0)"
  by (simp add: py_truediv_def zero_signed_def)

lemma percentage_of_one: "percentage_of (Fin 1) = Inr (Fin 100)"
  by (simp add: percentage_of_def py_round_nd_def float_defs Let_def)

lemma percentage_of_zero: "percentage_of (Fin 0) = Inr (Fin 0)"
  by (simp add: percentage_of_def py_round_nd_def float_defs Let_def)

lemma completed_of_one:
  assumes "int_to_float w = Inr a"
  shows "\<exists>c. completed_of (Fin 1) w = Inr c"
  using py_round_in_range [OF in_range_fmul_one [OF int_to_float_in_range [OF assms]]] assms
  by (simp add: completed_of_def)

lemma completed_of_zero:
  assumes "int_to_float w = Inr a"
  shows "completed_of (Fin 0) w = Inr 0"
  using fmul_zero [OF int_to_float_in_range [OF assms]] assms
  by (simp add: completed_of_def)

lemma eta_string_zero: "eta_string a (Fin 0) = Inl ZeroDivisionError"
  by (simp add: eta_string_def eta_of_def fdiv_def is_zero_def)

lemma eta_format_one: "eta_format (Fin 1) = Inr (ascii ''00:01'')"
  by (simp add: eta_format_def float_defs str_defs Let_def)

lemma eta_of_done:
  assumes "in_range a"
  shows "eta_of a (Fin 1) = Inr (Fin 1)"
proof -
  have r: "in_range (cdiv a (Fin 1))" using assms by (rule in_range_cdiv_one)
  have z: "fsub (Fin 1) (Fin 1) = Fin 0" by (simp add: float_defs)
  have "fmul (cdiv a (Fin 1)) (Fin 0) = zero_signed (signbit (cdiv a (Fin 1)))"
    using in_range_flags [OF r] by (simp add: fmul_def is_zero_def is_nan_def is_inf_def signbit_def)
  then have "fadd (fmul (cdiv a (Fin 1)) (Fin 0)) (Fin 1) = Fin 1"
    by (simp add: fadd_def zero_signed_def is_nan_def is_inf_def is_zero_def val_def)
  then show ?thesis by (simp add: eta_of_def fdiv_def is_zero_def z)
qed

lemma eta_string_done: "in_range a \<Longrightarrow> eta_string a (Fin 1) = Inr (ascii ''00:01'')"
  by (simp add: eta_string_def eta_of_done eta_format_one)

section \<open>Updates with fraction zero, fraction one, and bars too wide\<close>

lemma rnd_overflow:
  assumes "pow2 1024 \<le> x"
  shows "rnd x = PInf"
proof -
  have x0: "0 < x" using assms pow2_pos [of 1024] by linarith
  define e where "e = max (ilog2 \<bar>x\<bar>) (- 1022)"
  define m where "m = rhe (x / pow2 (e - 52))"
  have "pow2 1024 < pow2 (ilog2 x + 1)" using ilog2_bounds(2) [OF x0] assms by linarith
  then have L: "1024 \<le> ilog2 x" using pow2_less_cancel [of 1024 "ilog2 x + 1"] by simp
  then have e: "e = ilog2 x" using x0 by (simp add: e_def)
  have lo: "pow2 e \<le> x" using ilog2_bounds(1) [OF x0] by (simp add: e)
  have pe: "pow2 e = 2 ^ 52 * pow2 (e - 52)"
  proof -
    have "e = 52 + (e - 52)" by arith
    then have "pow2 e = pow2 (52 + (e - 52))" by (simp only:)
    also have "\<dots> = pow2 52 * pow2 (e - 52)" by (rule pow2_add)
    finally show ?thesis by (simp add: pow2_nat)
  qed
  have "of_int (2 ^ 52) \<le> x / pow2 (e - 52)"
    using lo by (simp add: pe pos_le_divide_eq)
  then have "2 ^ 52 \<le> m" unfolding m_def by (rule rhe_ge)
  then have "(of_int (2 ^ 52) :: rat) \<le> of_int m" by (simp only: of_int_le_iff)
  then have "2 ^ 52 * pow2 (e - 52) \<le> of_int m * pow2 (e - 52)" by simp
  then have "pow2 e \<le> of_int m * pow2 (e - 52)" by (simp only: pe)
  moreover have "pow2 1024 \<le> pow2 e" using L by (intro pow2_mono) (simp add: e)
  ultimately have "MAXF < \<bar>of_int m * pow2 (e - 52)\<bar>" using MAXF_less by linarith
  then show ?thesis
    using x0 unfolding rnd_unfold [OF less_imp_neq [OF x0, symmetric] e_def m_def] by simp
qed

lemma int_to_float_overflow: "2 ^ 1024 \<le> i \<Longrightarrow> int_to_float i = Inl OverflowError"
proof -
  assume "2 ^ 1024 \<le> i"
  then have "(of_int (2 ^ 1024) :: rat) \<le> of_int i" by (simp only: of_int_le_iff)
  then have "pow2 1024 \<le> of_int i" by (simp add: pow2_nat)
  then show ?thesis by (simp add: int_to_float_def rnd_overflow)
qed

lemma int_to_float_small: "\<bar>i\<bar> < 2 ^ 53 \<Longrightarrow> int_to_float i = Inr (Fin (of_int i))"
  by (simp add: int_to_float_def rnd_int)

lemma update_zero_raises:
  assumes "0 < int_of (self_total self)"
    and "int_to_float (int_of (self_width self)) = Inr a"
  shows "update E 0 (self, t) =
     (Some ZeroDivisionError,
      self\<lparr>self_start := Some (started E (self, t)), self_progress := Fin 0\<rparr>,
      t\<lparr>ticks := Suc (case self_start self of None \<Rightarrow> Suc (ticks t) | Some s \<Rightarrow> ticks t),
        cursor_visible := False\<rparr>)"
  using assms
  by (simp add: update_eq start_timer_eq py_truediv_zero percentage_of_zero
      completed_of_zero [OF assms(2)] display_eq eta_string_zero flt_def fgt_def feq_def
      is_nan_def is_inf_def val_def)

lemma update_overflows:
  assumes "py_truediv current (int_of (self_total self)) = Inr p"
    and "percentage_of p = Inr pct"
    and "2 ^ 1024 \<le> int_of (self_width self)"
  shows "update E current (self, t) =
     (Some OverflowError,
      self\<lparr>self_start := Some (started E (self, t)), self_progress := p\<rparr>,
      t\<lparr>ticks := (case self_start self of None \<Rightarrow> Suc (ticks t) | Some s \<Rightarrow> ticks t)\<rparr>)"
  using assms
  by (simp add: update_eq start_timer_eq completed_of_def int_to_float_overflow)

lemma completed_of_one_small:
  assumes "\<bar>w\<bar> < 2 ^ 53"
  shows "completed_of (Fin 1) w = Inr w"
proof (cases "w = 0")
  case True
  then show ?thesis
    by (simp add: completed_of_def int_to_float_def rnd_def fmul_def is_nan_def is_inf_def
        is_zero_def)
next
  case False
  then show ?thesis
    using assms
    by (simp add: completed_of_def int_to_float_small fmul_def is_nan_def is_inf_def
        is_zero_def val_def rnd_int py_round_def)
qed

lemma small_index_sized: "\<bar>w\<bar> < 2 ^ 53 \<Longrightarrow> index_sized w"
  unfolding index_sized_def by simp linarith

lemma length_rendered_line_ge:
  "nat c + nat r \<le> length (rendered_line E d label pct c r tail)"
  by (simp add: rendered_line_def)

lemma written_line_ok:
  assumes "index_sized c" "index_sized r"
    and "fits E (rendered_line E d label pct c r tail)" "list_all (encodable E) ending"
  shows "written E c r (rendered_line E d label pct c r tail) ending =
     (None, rendered_line E d label pct c r tail @ ending)"
proof -
  have "nat c + nat r \<le> capacity E"
    using assms(3) length_rendered_line_ge [of c r E d label pct tail]
    by (simp add: fits_def)
  then show ?thesis using assms by (intro written_ok) simp_all
qed

lemma update_completes_cases:
  assumes n: "int_of (self_total self) = n" "n \<noteq> 0"
    and w: "int_to_float (int_of (self_width self)) = Inr a"
    and tm: "timing_ok E (self, t)"
  shows "\<exists>c. completed_of (Fin 1) (int_of (self_width self)) = Inr c \<and>
     update E n (self, t) =
       (case written E c (int_of (self_width self) - c)
               (rendered_line E True (self_text self) (Fin 100) c
                  (int_of (self_width self) - c)
                  (ascii ''Elapsed: '' @ format_f 2 (elapsed_at E (self, t)) @ ascii ''s''))
               [10] of
          (Some e, out) \<Rightarrow>
            (Some e,
             self\<lparr>self_start := Some (started E (self, t)), self_progress := Fin 1\<rparr>,
             t\<lparr>ticks := Suc (ticks (snd (start_timer E (self, t)))),
               cursor_visible := True, stdout := stdout t @ out\<rparr>)
        | (None, out) \<Rightarrow>
            (None,
             self\<lparr>self_start := Some (started E (self, t)), self_progress := Fin 1,
               self_LAST := Some (clock E (Suc (ticks (snd (start_timer E (self, t))))))\<rparr>,
             t\<lparr>ticks := Suc (Suc (ticks (snd (start_timer E (self, t))))),
               cursor_visible := True, stdout := stdout t @ out\<rparr>))"
proof -
  obtain c where c: "completed_of (Fin 1) (int_of (self_width self)) = Inr c"
    using completed_of_one [OF w] by blast
  have el: "in_range (elapsed_at E (self, t))"
    using tm by (simp add: timing_ok_def elapsed_at_def in_range_fsub_readings)
  have es: "eta_string (elapsed_at E (self, t)) (Fin 1) = Inr (ascii ''00:01'')"
    using el by (rule eta_string_done)
  have cmp: "\<not> flt (Fin 1) (Fin 0)" "\<not> fgt (Fin 1) (Fin 1)" "feq (Fin 1) (Fin 1)"
    "\<not> flt (Fin 1) (Fin 1)"
    by (simp_all add: flt_def fgt_def feq_def is_nan_def is_inf_def val_def)
  have e2: "elapsed_at E (self, t)
      = fsub (clock E (ticks (snd (start_timer E (self, t))))) (started E (self, t))"
    by (simp add: elapsed_at_def)
  show ?thesis
    apply (rule exI [of _ c])
    apply (rule conjI [OF c])
    using es unfolding e2
    apply (simp add: update_eq start_timer_eq n py_truediv_self percentage_of_one c cmp
        display_eq split: prod.splits option.splits)
    done
qed

lemma update_completes:
  assumes n: "int_of (self_total self) = n" "n \<noteq> 0"
    and w: "\<bar>int_of (self_width self)\<bar> < 2 ^ 53"
    and tm: "timing_ok E (self, t)"
    and fit: "fits E (rendered_line E True (self_text self) (Fin 100)
                (int_of (self_width self)) 0
                (ascii ''Elapsed: '' @ format_f 2 (elapsed_at E (self, t)) @ ascii ''s''))"
    and nl: "encodable E 10"
  shows "update E n (self, t) =
       (None,
        self\<lparr>self_start := Some (started E (self, t)), self_progress := Fin 1,
          self_LAST := Some (clock E (Suc (ticks (snd (start_timer E (self, t))))))\<rparr>,
        t\<lparr>ticks := Suc (Suc (ticks (snd (start_timer E (self, t))))),
          cursor_visible := True,
          stdout := stdout t @
            rendered_line E True (self_text self) (Fin 100) (int_of (self_width self)) 0
              (ascii ''Elapsed: '' @ format_f 2 (elapsed_at E (self, t)) @ ascii ''s'')
            @ [10]\<rparr>)"
proof -
  let ?w = "int_of (self_width self)"
  have a: "int_to_float ?w = Inr (Fin (of_int ?w))" using w by (rule int_to_float_small)
  have c: "completed_of (Fin 1) ?w = Inr ?w" using w by (rule completed_of_one_small)
  have wr: "written E ?w 0
      (rendered_line E True (self_text self) (Fin 100) ?w 0
        (ascii ''Elapsed: '' @ format_f 2 (elapsed_at E (self, t)) @ ascii ''s'')) [10]
    = (None, rendered_line E True (self_text self) (Fin 100) ?w 0
        (ascii ''Elapsed: '' @ format_f 2 (elapsed_at E (self, t)) @ ascii ''s'') @ [10])"
    using fit nl small_index_sized [OF w]
    by (intro written_line_ok) (simp_all add: index_sized_def)
  show ?thesis
    using update_completes_cases [OF n a tm] by (simp add: c wr)
qed

subsection \<open>Evaluating a rounding by its binade and mantissa\<close>

lemma rnd_evalI:
  assumes "x \<noteq> 0" "pow2 e \<le> \<bar>x\<bar>" "\<bar>x\<bar> < pow2 (e + 1)" "- 1022 \<le> e" "e \<le> 1022"
    and "\<bar>x / pow2 (e - 52) - of_int m\<bar> < 1 / 2" "m \<noteq> 0"
    and "y = of_int m * pow2 (e - 52)"
  shows "rnd x = Fin y"
proof -
  have "\<bar>x / pow2 (e - 52)\<bar> < 2 ^ 53"
    using assms(3) by (simp add: pow2_shift53 abs_divide pos_divide_less_eq)
  then have "\<bar>(of_int m :: rat)\<bar> < 2 ^ 53 + 1" using assms(6) by linarith
  then have "(of_int \<bar>m\<bar> :: rat) < of_int (2 ^ 53 + 1)" by simp
  then have "\<bar>m\<bar> < 2 ^ 53 + 1" by (simp only: of_int_less_iff)
  then have "\<bar>m\<bar> \<le> 2 ^ 53" by simp
  then have "(of_int \<bar>m\<bar> :: rat) \<le> of_int (2 ^ 53)" by (simp only: of_int_le_iff)
  then have "\<bar>of_int m * pow2 (e - 52)\<bar> \<le> 2 ^ 53 * pow2 (e - 52)" by (simp add: abs_mult)
  also have "\<dots> = pow2 (e + 1)" by (rule pow2_shift53 [symmetric])
  also have "\<dots> \<le> MAXF" using assms(5) by (intro pow2_le_MAXF) simp
  finally have "\<bar>of_int m * pow2 (e - 52)\<bar> \<le> MAXF" .
  then show ?thesis using rnd_eqI [OF assms(1-4) assms(6,7)] assms(8) by simp
qed

lemma EPS_eval: "EPS = Fin (4951760157141521 / 2 ^ 92)"
  unfolding EPS_def
  by (rule rnd_evalI [where e = "- 40" and m = 4951760157141521]) (simp_all add: pow2_def)

lemma small_le_MAXF: "r \<le> 2 ^ 53 \<Longrightarrow> r \<le> MAXF"
  using pow2_le_MAXF [of 53] by (simp add: pow2_nat)

lemma width_in_float_range_iff:
  "width_in_float_range self \<longleftrightarrow> (\<exists>a. int_to_float (int_of (self_width self)) = Inr a)"
  by (simp add: width_in_float_range_def split: sum.splits)

lemma int_of_PyInt [simp]: "int_of (PyInt i) = i"
  by (simp add: int_of_def)

lemma new_bar_simps [simp]:
  "self_start (new_bar n w) = None" "self_total (new_bar n w) = PyInt n"
  "self_text (new_bar n w) = ascii ''Progress''" "self_width (new_bar n w) = PyInt w"
  "self_progress (new_bar n w) = EPS" "self_LAST (new_bar n w) = None"
  by (simp_all add: new_bar_def)

lemma fresh_io_simps [simp]:
  "ticks fresh_io = 0" "stdout fresh_io = []" "cursor_visible fresh_io = True"
  by (simp_all add: fresh_io_def)

lemma demo_clock [simp]: "clock demo_env n = Fin (of_nat n * 10)"
  by (simp add: demo_env_def)

lemma plain_clock [simp]: "clock plain_env n = Fin (of_nat n * 10)"
  by (simp add: plain_env_def)

lemma EPS_not_negative: "\<not> flt EPS (Fin 0)"
  by (simp add: EPS_eval flt_def is_nan_def is_inf_def val_def)

lemma timing_ok_demo: "timing_ok demo_env (new_bar n w, fresh_io)"
  by (simp add: timing_ok_def started_def start_timer_eq reading_ok_def small_le_MAXF)

lemma list_all_repeated:
  "list_all P (repeated s n) \<longleftrightarrow> n \<le> 0 \<or> list_all P s"
  by (auto simp: repeated_def list_all_iff)

lemma list_all_SYMBOL: "list_all P SYMBOL \<longleftrightarrow> P 9473"
  by (simp add: SYMBOL_def)

lemma demo_env_simps [simp]:
  "Fore_GREEN demo_env = 27 # ascii ''[32m''" "Fore_RED demo_env = 27 # ascii ''[31m''"
  "Fore_YELLOW demo_env = 27 # ascii ''[33m''" "Fore_BLACK demo_env = 27 # ascii ''[30m''"
  "capacity demo_env = 1000000"
  "encodable demo_env c \<longleftrightarrow> c < 55296 \<or> 57344 \<le> c \<and> c < 1114112"
  by (simp_all add: demo_env_def)

lemma plain_env_simps [simp]:
  "Fore_GREEN plain_env = []" "Fore_RED plain_env = []"
  "Fore_YELLOW plain_env = []" "Fore_BLACK plain_env = []"
  "capacity plain_env = 1000000"
  "encodable plain_env c \<longleftrightarrow> c < 55296 \<or> 57344 \<le> c \<and> c < 1114112"
  by (simp_all add: plain_env_def)

lemma format_100: "rjust 6 (format_f 2 (Fin 100)) = ascii ''100.00''"
  by (simp add: format_f_def str_defs Let_def)

lemma format_10: "format_f 2 (Fin 10) = ascii ''10.00''"
  by (simp add: format_f_def str_defs Let_def)

lemma done_line_demo:
  "rendered_line demo_env True (ascii ''Progress'') (Fin 100) 57 0
     (ascii ''Elapsed: '' @ format_f 2 (Fin 10) @ ascii ''s'') =
   ascii '' '' @ Fore_GREEN demo_env @ [8730] @ ascii '' '' @ Fore_GREEN demo_env
   @ ascii ''Progress '' @ Fore_GREEN demo_env @ repeated SYMBOL 57 @ Fore_BLACK demo_env
   @ ascii '' '' @ Fore_GREEN demo_env @ ascii ''[100.00 %] '' @ Fore_GREEN demo_env
   @ ascii ''Elapsed: 10.00s''"
  by (simp add: rendered_line_def text_colour_def progress_colour_def ICON_of_def format_100
      format_10 repeated_def ascii_def)

lemma done_line_demo_fits:
  "fits demo_env (rendered_line demo_env True (ascii ''Progress'') (Fin 100) 57 0
     (ascii ''Elapsed: '' @ format_f 2 (Fin 10) @ ascii ''s''))"
  unfolding done_line_demo
  by (simp add: fits_def list_all_repeated list_all_SYMBOL ascii_def)

lemma elapsed_fresh_demo: "elapsed_at demo_env (new_bar n w, fresh_io) = Fin 10"
  by (simp add: elapsed_at_def start_timer_eq started_def float_defs)

lemma elapsed_fresh_plain: "elapsed_at plain_env (new_bar n w, fresh_io) = Fin 10"
  by (simp add: elapsed_at_def start_timer_eq started_def float_defs)

lemma done_line_new_bar_fits:
  "fits demo_env (rendered_line demo_env True (self_text (new_bar n 57)) (Fin 100)
     (int_of (self_width (new_bar n 57))) 0
     (ascii ''Elapsed: '' @ format_f 2 (elapsed_at demo_env (new_bar n 57, fresh_io))
        @ ascii ''s''))"
  using done_line_demo_fits by (simp add: elapsed_fresh_demo)

section \<open>An update with \<^verbatim>\<open>current = 0\<close>\<close>

text \<open>
  Claim C3, as amended.  For every tracker with a positive total whose bar width is
  within the float range, \<^verbatim>\<open>update(0)\<close> raises \<^verbatim>\<open>ZeroDivisionError\<close>: the stored
  fraction becomes exactly \<open>0.0\<close>, which is not below zero, so it is not reset; the
  ETA computation divides the elapsed time by it; nothing has been written by then.
\<close>

theorem update_zero_division:
  assumes "0 < int_of (self_total self)" and "width_in_float_range self"
  shows "case update E 0 (self, t) of (r, self', t') \<Rightarrow>
           r = Some ZeroDivisionError \<and> self_progress self' = Fin 0
           \<and> \<not> flt (self_progress self') (Fin 0)
           \<and> eta_of (elapsed_at E (self, t)) (self_progress self') = Inl ZeroDivisionError
           \<and> stdout t' = stdout t"
proof -
  obtain a where a: "int_to_float (int_of (self_width self)) = Inr a"
    using assms(2) by (auto simp: width_in_float_range_iff)
  show ?thesis
    by (simp add: update_zero_raises [OF assms(1) a] flt_def is_nan_def is_inf_def val_def
        eta_of_def fdiv_def is_zero_def)
qed

theorem update_zero_division_witness:
  "0 < int_of (self_total (new_bar 100 57)) \<and> width_in_float_range (new_bar 100 57)
   \<and> fst (update demo_env 0 (new_bar 100 57, fresh_io)) = Some ZeroDivisionError
   \<and> self_progress (fst (snd (update demo_env 0 (new_bar 100 57, fresh_io)))) = Fin 0"
proof -
  have h1: "0 < int_of (self_total (new_bar 100 57))" by simp
  have h2: "width_in_float_range (new_bar 100 57)"
    by (simp add: width_in_float_range_def int_to_float_small)
  from update_zero_division [OF h1 h2, of demo_env fresh_io] h1 h2
  show ?thesis by (auto split: prod.splits)
qed

text \<open>
  Claim C3 as stated fails for a bar too wide for a float: with a positive total and a
  stored fraction that is not negative, \<^verbatim>\<open>update(0)\<close> raises \<^verbatim>\<open>OverflowError\<close>
  in the computation of the filled cells, before the ETA is reached.
\<close>

theorem update_zero_wide_bar_overflows:
  "0 < int_of (self_total (new_bar 1 (2 ^ 1024)))
   \<and> \<not> flt (self_progress (new_bar 1 (2 ^ 1024))) (Fin 0)
   \<and> fst (update demo_env 0 (new_bar 1 (2 ^ 1024), fresh_io)) = Some OverflowError"
  by (simp add: EPS_not_negative
      update_overflows [where p = "Fin 0" and pct = "Fin 0"] py_truediv_zero percentage_of_zero)

text \<open>
  Claim C2.  For \<^verbatim>\<open>ProgressBar(100)\<close> the first call of the sequence
  \<^verbatim>\<open>update(0), \<dots>, update(100)\<close> does not succeed: it raises
  \<^verbatim>\<open>ZeroDivisionError\<close> and prints nothing.
\<close>

theorem first_of_101_updates_raises:
  "init (PyInt 100) default_text PyNone = Inr (new_bar 100 57)
   \<and> fst (update demo_env 0 (new_bar 100 57, fresh_io)) = Some ZeroDivisionError
   \<and> stdout (snd (snd (update demo_env 0 (new_bar 100 57, fresh_io)))) = []"
  by (simp add: init_default_width
      update_zero_raises [where a = "Fin 57"] int_to_float_small)

section \<open>Reaching the total\<close>

text \<open>
  Claim C10, as amended.  For every tracker with a positive total, \<^verbatim>\<open>update(total)\<close>
  stores a fraction exactly equal to \<open>1\<close>, whatever was stored before, and when the bar
  width converts to a float the completion tests succeed and the cursor is shown.  When
  moreover the width is below \<open>2\<^sup>5\<^sup>3\<close>, the clock readings are finite and not negative, the
  interpreter has memory for the line and standard output can encode it and the
  newline, the call returns after printing one line: done glyph and colours, as many
  filled cells as the width and no empty one, the elapsed time, and a newline.
\<close>

theorem update_total_completes:
  assumes "0 < n" and "int_of (self_total self) = n"
  shows "self_progress (fst (snd (update E n (self, t)))) = Fin 1
    \<and> (width_in_float_range self \<longrightarrow>
         feq (self_progress (fst (snd (update E n (self, t))))) (Fin 1)
         \<and> cursor_visible (snd (snd (update E n (self, t)))))
    \<and> (\<bar>int_of (self_width self)\<bar> < 2 ^ 53 \<and> timing_ok E (self, t)
        \<and> fits E (rendered_line E True (self_text self) (Fin 100)
                    (int_of (self_width self)) 0
                    (ascii ''Elapsed: '' @ format_f 2 (elapsed_at E (self, t)) @ ascii ''s''))
        \<and> encodable E 10 \<longrightarrow>
         (case update E n (self, t) of (r, self', t') \<Rightarrow>
            r = None \<and> feq (self_progress self') (Fin 1) \<and> cursor_visible t'
            \<and> stdout t' = stdout t @
                  rendered_line E True (self_text self) (Fin 100)
                    (int_of (self_width self)) 0
                    (ascii ''Elapsed: '' @ format_f 2 (elapsed_at E (self, t)) @ ascii ''s'')
                  @ [10]))"
proof -
  have n0: "n \<noteq> 0" using assms(1) by simp
  have cmp: "\<not> flt (Fin 1) (Fin 0)" "\<not> fgt (Fin 1) (Fin 1)" "feq (Fin 1) (Fin 1)"
    by (simp_all add: flt_def fgt_def feq_def is_nan_def is_inf_def val_def)
  have one: "self_progress (fst (snd (update E n (self, t)))) = Fin 1"
    by (simp add: update_eq start_timer_eq assms(2) py_truediv_self [OF n0]
        percentage_of_one display_eq cmp split: sum.splits prod.splits option.splits)
  have shown: "cursor_visible (snd (snd (update E n (self, t))))"
    if w: "width_in_float_range self"
  proof -
    obtain a where a: "int_to_float (int_of (self_width self)) = Inr a"
      using w by (auto simp: width_in_float_range_iff)
    obtain c where c: "completed_of (Fin 1) (int_of (self_width self)) = Inr c"
      using completed_of_one [OF a] by blast
    show ?thesis
      by (simp add: update_eq start_timer_eq assms(2) py_truediv_self [OF n0]
          percentage_of_one c display_eq cmp split: sum.splits prod.splits option.splits)
  qed
  have printed: "case update E n (self, t) of (r, self', t') \<Rightarrow>
            r = None \<and> feq (self_progress self') (Fin 1) \<and> cursor_visible t'
            \<and> stdout t' = stdout t @
                  rendered_line E True (self_text self) (Fin 100)
                    (int_of (self_width self)) 0
                    (ascii ''Elapsed: '' @ format_f 2 (elapsed_at E (self, t)) @ ascii ''s'')
                  @ [10]"
    if "\<bar>int_of (self_width self)\<bar> < 2 ^ 53" "timing_ok E (self, t)"
      "fits E (rendered_line E True (self_text self) (Fin 100)
                    (int_of (self_width self)) 0
                    (ascii ''Elapsed: '' @ format_f 2 (elapsed_at E (self, t)) @ ascii ''s''))"
      "encodable E 10"
    unfolding update_completes [OF assms(2) n0 that] by (simp add: cmp)
  show ?thesis
    using one shown printed by (simp add: cmp)
qed

theorem update_total_completes_witness:
  "(0::int) < 10 \<and> int_of (self_total (new_bar 10 57\<lparr>self_progress := Fin (1 / 2)\<rparr>)) = 10
   \<and> width_in_float_range (new_bar 10 57\<lparr>self_progress := Fin (1 / 2)\<rparr>)
   \<and> \<bar>int_of (self_width (new_bar 10 57\<lparr>self_progress := Fin (1 / 2)\<rparr>))\<bar> < 2 ^ 53
   \<and> timing_ok demo_env (new_bar 10 57\<lparr>self_progress := Fin (1 / 2)\<rparr>, fresh_io)
   \<and> fits demo_env
        (rendered_line demo_env True (ascii ''Progress'') (Fin 100) 57 0
          (ascii ''Elapsed: '' @ format_f 2 (Fin 10) @ ascii ''s''))
   \<and> encodable demo_env 10
   \<and> fst (update demo_env 10 (new_bar 10 57\<lparr>self_progress := Fin (1 / 2)\<rparr>, fresh_io)) = None
   \<and> self_progress (fst (snd (update demo_env 10
         (new_bar 10 57\<lparr>self_progress := Fin (1 / 2)\<rparr>, fresh_io)))) = Fin 1
   \<and> cursor_visible (snd (snd (update demo_env 10
         (new_bar 10 57\<lparr>self_progress := Fin (1 / 2)\<rparr>, fresh_io))))
   \<and> stdout (snd (snd (update demo_env 10
         (new_bar 10 57\<lparr>self_progress := Fin (1 / 2)\<rparr>, fresh_io)))) =
       ascii '' '' @ Fore_GREEN demo_env @ [8730] @ ascii '' '' @ Fore_GREEN demo_env
       @ ascii ''Progress '' @ Fore_GREEN demo_env @ repeated SYMBOL 57
       @ Fore_BLACK demo_env @ ascii '' '' @ Fore_GREEN demo_env @ ascii ''[100.00 %] ''
       @ Fore_GREEN demo_env @ ascii ''Elapsed: 10.00s'' @ [10]"
proof -
  let ?b = "new_bar 10 57\<lparr>self_progress := Fin (1 / 2)\<rparr>"
  have h1: "(0::int) < 10" by simp
  have h2: "int_of (self_total ?b) = 10" by simp
  have h3: "width_in_float_range ?b"
    by (simp add: width_in_float_range_def int_to_float_small)
  have h4: "timing_ok demo_env (?b, fresh_io)"
    by (simp add: timing_ok_def started_def start_timer_eq reading_ok_def small_le_MAXF)
  have h5: "\<bar>int_of (self_width ?b)\<bar> < 2 ^ 53" by simp
  have el: "elapsed_at demo_env (?b, fresh_io) = Fin 10"
    by (simp add: elapsed_at_def start_timer_eq started_def float_defs)
  have h6: "fits demo_env
        (rendered_line demo_env True (ascii ''Progress'') (Fin 100) 57 0
          (ascii ''Elapsed: '' @ format_f 2 (Fin 10) @ ascii ''s''))"
    by (rule done_line_demo_fits)
  have h7: "encodable demo_env 10" by simp
  from update_total_completes [OF h1 h2, of demo_env fresh_io] h3 h4 h5 h6 h7
  have "fst (update demo_env 10 (?b, fresh_io)) = None
    \<and> self_progress (fst (snd (update demo_env 10 (?b, fresh_io)))) = Fin 1
    \<and> cursor_visible (snd (snd (update demo_env 10 (?b, fresh_io))))
    \<and> stdout (snd (snd (update demo_env 10 (?b, fresh_io)))) =
        rendered_line demo_env True (ascii ''Progress'') (Fin 100) 57 0
          (ascii ''Elapsed: '' @ format_f 2 (Fin 10) @ ascii ''s'') @ [10]"
    by (simp add: el split: prod.splits)
  then show ?thesis
    using h1 h2 h3 h4 h5 h6 h7 unfolding done_line_demo by simp
qed

text \<open>
  Claim C10 as stated fails for a bar too wide for a float: the fraction is stored as
  \<open>1\<close>, but the call raises \<^verbatim>\<open>OverflowError\<close> before the completion tests and prints
  nothing.
\<close>

theorem update_total_wide_bar_overflows:
  "0 < int_of (self_total (new_bar 3 (2 ^ 1024)))
   \<and> fst (update demo_env 3 (new_bar 3 (2 ^ 1024), fresh_io)) = Some OverflowError
   \<and> stdout (snd (snd (update demo_env 3 (new_bar 3 (2 ^ 1024), fresh_io)))) = []"
  by (simp add: update_overflows [where p = "Fin 1" and pct = "Fin 100"] py_truediv_self
      percentage_of_one)

section \<open>Overshoot and single-step completion\<close>

lemma fgt_one_not_negative: "fgt p (Fin 1) \<Longrightarrow> \<not> flt p (Fin 0)"
  by (cases p) (simp_all add: fgt_def flt_def is_nan_def is_inf_def val_def)

lemma update_overshoot:
  assumes "py_truediv current (int_of (self_total self)) = Inr p" and "fgt p (Fin 1)"
  shows "\<exists>r. update E current (self, t) =
     (r, self\<lparr>self_start := Some (started E (self, t)), self_progress := p\<rparr>,
      t\<lparr>ticks := (case self_start self of None \<Rightarrow> Suc (ticks t) | Some s \<Rightarrow> ticks t)\<rparr>)
     \<and> (r = None \<longleftrightarrow>
          (\<exists>pct c. percentage_of p = Inr pct
             \<and> completed_of p (int_of (self_width self)) = Inr c))"
  using assms fgt_one_not_negative [OF assms(2)]
  by (simp add: update_eq start_timer_eq split: sum.splits)

text \<open>
  Claim C5, as amended.  Take a tracker constructed with total \<open>1\<close> and a bar width below
  \<open>2\<^sup>5\<^sup>3\<close>, finite non-negative clock readings, an interpreter with memory for the
  line, and a standard output that can encode the line and the newline.  Then the first
  call \<^verbatim>\<open>update(1)\<close> sets the start time to the reading it takes, stores fraction \<open>1\<close>,
  shows the cursor, and prints one line with the done glyph and the done colour, as many
  filled cells as the width, ending in \<^verbatim>\<open>Elapsed: \<close>, the elapsed seconds with two
  decimals, \<^verbatim>\<open>s\<close> and a newline.  Completion needs equality: an update whose fraction
  exceeds \<open>1\<close> prints nothing and leaves the cursor as it is.
\<close>

theorem single_update_completes:
  assumes "init (PyInt 1) (PyStr label) wd = Inr self"
    and "\<bar>int_of (self_width self)\<bar> < 2 ^ 53"
    and "reading_ok (clock E (ticks t))" and "reading_ok (clock E (Suc (ticks t)))"
    and "fits E (rendered_line E True label (Fin 100) (int_of (self_width self)) 0
                  (ascii ''Elapsed: ''
                     @ format_f 2 (fsub (clock E (Suc (ticks t))) (clock E (ticks t)))
                     @ ascii ''s''))"
    and "encodable E 10"
  shows "(case update E 1 (self, t) of (r, self', t') \<Rightarrow>
            r = None \<and> self_start self' = Some (clock E (ticks t))
            \<and> feq (self_progress self') (Fin 1) \<and> cursor_visible t'
            \<and> stdout t' = stdout t @
                  rendered_line E True label (Fin 100) (int_of (self_width self)) 0
                    (ascii ''Elapsed: ''
                       @ format_f 2 (fsub (clock E (Suc (ticks t))) (clock E (ticks t)))
                       @ ascii ''s'')
                  @ [10])
    \<and> ICON_of True = [8730] \<and> text_colour E True = Fore_GREEN E
    \<and> progress_colour E True = Fore_GREEN E
    \<and> (py_truediv current (int_of (self_total s)) = Inr p \<and> fgt p (Fin 1) \<longrightarrow>
         stdout (snd (snd (update E current (s, u)))) = stdout u
         \<and> cursor_visible (snd (snd (update E current (s, u)))) = cursor_visible u)"
proof -
  have s: "self_start self = None" "self_total self = PyInt 1" "self_text self = label"
    using assms(1) by (auto simp: init_cases split: if_splits)
  have st: "started E (self, t) = clock E (ticks t)"
    "start_timer E (self, t) = (self\<lparr>self_start := Some (clock E (ticks t))\<rparr>,
        t\<lparr>ticks := Suc (ticks t)\<rparr>)"
    by (simp_all add: started_def start_timer_eq s)
  have tm: "timing_ok E (self, t)"
    using assms(3,4) by (simp add: timing_ok_def st)
  have el: "elapsed_at E (self, t) = fsub (clock E (Suc (ticks t))) (clock E (ticks t))"
    by (simp add: elapsed_at_def st)
  have n: "int_of (self_total self) = 1" by (simp add: s)
  have fit: "fits E (rendered_line E True (self_text self) (Fin 100)
                (int_of (self_width self)) 0
                (ascii ''Elapsed: '' @ format_f 2 (elapsed_at E (self, t)) @ ascii ''s''))"
    using assms(5) by (simp add: el s)
  have first: "case update E 1 (self, t) of (r, self', t') \<Rightarrow>
            r = None \<and> self_start self' = Some (clock E (ticks t))
            \<and> feq (self_progress self') (Fin 1) \<and> cursor_visible t'
            \<and> stdout t' = stdout t @
                  rendered_line E True label (Fin 100) (int_of (self_width self)) 0
                    (ascii ''Elapsed: ''
                       @ format_f 2 (fsub (clock E (Suc (ticks t))) (clock E (ticks t)))
                       @ ascii ''s'')
                  @ [10]"
    unfolding update_completes [OF n _ assms(2) tm fit assms(6), simplified]
    by (simp add: st s el feq_def is_nan_def is_inf_def val_def)
  have over: "stdout (snd (snd (update E current (s, u)))) = stdout u
         \<and> cursor_visible (snd (snd (update E current (s, u)))) = cursor_visible u"
    if "py_truediv current (int_of (self_total s)) = Inr p" "fgt p (Fin 1)"
    using update_overshoot [OF that, of E u] by auto
  show ?thesis
    using first over by (simp add: ICON_of_def text_colour_def progress_colour_def)
qed

theorem single_update_completes_witness:
  "init (PyInt 1) (PyStr (ascii ''Progress'')) PyNone = Inr (new_bar 1 57)
   \<and> \<bar>int_of (self_width (new_bar 1 57))\<bar> < 2 ^ 53
   \<and> reading_ok (clock demo_env (ticks fresh_io))
   \<and> reading_ok (clock demo_env (Suc (ticks fresh_io)))
   \<and> fits demo_env
        (rendered_line demo_env True (ascii ''Progress'') (Fin 100) 57 0
          (ascii ''Elapsed: '' @ format_f 2 (Fin 10) @ ascii ''s''))
   \<and> encodable demo_env 10
   \<and> py_truediv 2 1 = Inr (Fin 2) \<and> fgt (Fin 2) (Fin 1)
   \<and> fst (update demo_env 1 (new_bar 1 57, fresh_io)) = None
   \<and> self_start (fst (snd (update demo_env 1 (new_bar 1 57, fresh_io)))) = Some (Fin 0)
   \<and> cursor_visible (snd (snd (update demo_env 1 (new_bar 1 57, fresh_io))))
   \<and> stdout (snd (snd (update demo_env 1 (new_bar 1 57, fresh_io)))) =
       ascii '' '' @ Fore_GREEN demo_env @ [8730] @ ascii '' '' @ Fore_GREEN demo_env
       @ ascii ''Progress '' @ Fore_GREEN demo_env @ repeated SYMBOL 57
       @ Fore_BLACK demo_env @ ascii '' '' @ Fore_GREEN demo_env @ ascii ''[100.00 %] ''
       @ Fore_GREEN demo_env @ ascii ''Elapsed: 10.00s'' @ [10]
   \<and> stdout (snd (snd (update demo_env 2 (new_bar 1 57, fresh_io)))) = []"
proof -
  have h1: "init (PyInt 1) (PyStr (ascii ''Progress'')) PyNone = Inr (new_bar 1 57)"
    using init_default_width [of 1] by (simp add: default_text_def)
  have h2: "\<bar>int_of (self_width (new_bar 1 57))\<bar> < 2 ^ 53" by simp
  have h3: "reading_ok (clock demo_env (ticks fresh_io))"
    and h4: "reading_ok (clock demo_env (Suc (ticks fresh_io)))"
    by (simp_all add: reading_ok_def small_le_MAXF)
  have el: "fsub (clock demo_env (Suc (ticks fresh_io))) (clock demo_env (ticks fresh_io))
      = Fin 10"
    by (simp add: float_defs)
  have h5: "fits demo_env
        (rendered_line demo_env True (ascii ''Progress'') (Fin 100)
          (int_of (self_width (new_bar 1 57))) 0
          (ascii ''Elapsed: ''
             @ format_f 2 (fsub (clock demo_env (Suc (ticks fresh_io)))
                 (clock demo_env (ticks fresh_io)))
             @ ascii ''s''))"
    unfolding el using done_line_demo_fits by simp
  have h6: "encodable demo_env 10" by simp
  have h7: "py_truediv 2 1 = Inr (Fin 2)" by (simp add: py_truediv_def)
  have h8: "fgt (Fin 2) (Fin 1)" by (simp add: fgt_def flt_def is_nan_def is_inf_def val_def)
  from single_update_completes [OF h1 h2 h3 h4 h5 h6, where current = 2
      and s = "new_bar 1 57" and p = "Fin 2" and u = fresh_io] h7 h8
  have "fst (update demo_env 1 (new_bar 1 57, fresh_io)) = None
   \<and> self_start (fst (snd (update demo_env 1 (new_bar 1 57, fresh_io)))) = Some (Fin 0)
   \<and> cursor_visible (snd (snd (update demo_env 1 (new_bar 1 57, fresh_io))))
   \<and> stdout (snd (snd (update demo_env 1 (new_bar 1 57, fresh_io)))) =
       rendered_line demo_env True (ascii ''Progress'') (Fin 100) 57 0
          (ascii ''Elapsed: '' @ format_f 2 (Fin 10) @ ascii ''s'') @ [10]
   \<and> stdout (snd (snd (update demo_env 2 (new_bar 1 57, fresh_io)))) = []"
    unfolding el by (simp split: prod.splits)
  then show ?thesis
    using h1 h2 h3 h4 h6 h7 h8 done_line_demo_fits unfolding done_line_demo by simp
qed

text \<open>
  Claim C5 as stated fails for a bar too wide for a float: \<^verbatim>\<open>ProgressBar(1, "Progress",
  2**1024).update(1)\<close> raises \<^verbatim>\<open>OverflowError\<close> and prints nothing.
\<close>

theorem single_update_wide_bar_overflows:
  "init (PyInt 1) default_text (PyInt (2 ^ 1024)) = Inr (new_bar 1 (2 ^ 1024))
   \<and> fst (update demo_env 1 (new_bar 1 (2 ^ 1024), fresh_io)) = Some OverflowError
   \<and> stdout (snd (snd (update demo_env 1 (new_bar 1 (2 ^ 1024), fresh_io)))) = []"
  by (simp add: init_new_bar update_overflows [where p = "Fin 1" and pct = "Fin 100"]
      py_truediv_self percentage_of_one)

text \<open>
  Claim C1, as amended.  When the computed fraction \<^verbatim>\<open>current / total\<close> exceeds \<open>1\<close>, the
  call writes nothing and does not touch the cursor, and total, label, width and the
  last time stamp stay as they were.  The stored fraction does not keep its former
  value: it is overwritten with the overshooting quotient, and the start time is set
  if it was not yet.  The call returns normally exactly when percentage and cell count
  could be computed.
\<close>

theorem overshoot_prints_nothing:
  assumes "py_truediv current (int_of (self_total self)) = Inr p" and "fgt p (Fin 1)"
  shows "case update E current (self, t) of (r, self', t') \<Rightarrow>
           stdout t' = stdout t \<and> cursor_visible t' = cursor_visible t
           \<and> self_total self' = self_total self \<and> self_text self' = self_text self
           \<and> self_width self' = self_width self \<and> self_LAST self' = self_LAST self
           \<and> self_progress self' = p
           \<and> self_start self' = Some (started E (self, t))
           \<and> (r = None \<longleftrightarrow>
                (\<exists>pct c. percentage_of p = Inr pct
                   \<and> completed_of p (int_of (self_width self)) = Inr c))"
  using update_overshoot [OF assms, of E t] by auto

lemma eleven_tenths: "py_truediv 11 10 = Inr (Fin (2476979795053773 / 2251799813685248))"
proof -
  have "rnd (11 / 10) = Fin (2476979795053773 / 2251799813685248)"
    by (rule rnd_evalI [where e = 0 and m = 4953959590107546]) (simp_all add: pow2_def)
  then show ?thesis by (simp add: py_truediv_def)
qed

lemma eleven_tenths_above_one: "fgt (Fin (2476979795053773 / 2251799813685248)) (Fin 1)"
  by (simp add: fgt_def flt_def is_nan_def is_inf_def val_def)

theorem overshoot_prints_nothing_witness:
  "py_truediv 11 10 = Inr (Fin (2476979795053773 / 2251799813685248))
   \<and> fgt (Fin (2476979795053773 / 2251799813685248)) (Fin 1)
   \<and> stdout (snd (snd (update demo_env 11 (new_bar 10 57, fresh_io)))) = []
   \<and> cursor_visible (snd (snd (update demo_env 11 (new_bar 10 57, fresh_io))))
   \<and> self_progress (fst (snd (update demo_env 11 (new_bar 10 57, fresh_io))))
       = Fin (2476979795053773 / 2251799813685248)"
proof -
  have h1: "py_truediv 11 (int_of (self_total (new_bar 10 57)))
      = Inr (Fin (2476979795053773 / 2251799813685248))"
    by (simp add: eleven_tenths)
  from overshoot_prints_nothing [OF h1 eleven_tenths_above_one, where E = demo_env
      and t = fresh_io]
    eleven_tenths eleven_tenths_above_one
  show ?thesis by (auto split: prod.splits)
qed

text \<open>
  Claim C1 as stated fails: a tracker with total \<open>10\<close> that has reached fraction \<open>1\<close>
  by \<^verbatim>\<open>update(10)\<close> stores the fraction \<open>1.1\<close> after \<^verbatim>\<open>update(11)\<close>, not the value it
  had before the call.
\<close>

theorem overshoot_overwrites_fraction:
  "self_progress (fst (snd (update demo_env 10 (new_bar 10 57, fresh_io)))) = Fin 1
   \<and> py_truediv 11 10 = Inr (Fin (2476979795053773 / 2251799813685248))
   \<and> fgt (Fin (2476979795053773 / 2251799813685248)) (Fin 1)
   \<and> self_progress (fst (snd (update demo_env 11
         (snd (update demo_env 10 (new_bar 10 57, fresh_io))))))
       = Fin (2476979795053773 / 2251799813685248)
   \<and> self_progress (fst (snd (update demo_env 11
         (snd (update demo_env 10 (new_bar 10 57, fresh_io))))))
       \<noteq> self_progress (fst (snd (update demo_env 10 (new_bar 10 57, fresh_io))))"
proof -
  have w: "\<bar>int_of (self_width (new_bar 10 57))\<bar> < 2 ^ 53" by simp
  have nl: "encodable demo_env 10" by simp
  from update_completes [OF _ _ w timing_ok_demo done_line_new_bar_fits nl, of 10]
  obtain s1 t1 where u: "update demo_env 10 (new_bar 10 57, fresh_io) = (None, s1, t1)"
    and s1: "self_progress s1 = Fin 1" "self_total s1 = PyInt 10"
    by auto
  have h: "py_truediv 11 (int_of (self_total s1)) = Inr (Fin (2476979795053773 / 2251799813685248))"
    by (simp add: s1 eleven_tenths)
  from update_overshoot [OF h eleven_tenths_above_one, where E = demo_env and t = t1]
  have "self_progress (fst (snd (update demo_env 11 (s1, t1))))
      = Fin (2476979795053773 / 2251799813685248)"
    by auto
  then show ?thesis
    by (simp add: u s1 eleven_tenths eleven_tenths_above_one)
qed

section \<open>The in-progress line\<close>

lemma flt_one_not_done: "flt a (Fin 1) \<Longrightarrow> \<not> feq a (Fin 1) \<and> \<not> fgt a (Fin 1)"
  by (cases a) (simp_all add: flt_def feq_def fgt_def is_nan_def is_inf_def val_def)

lemma EPS_below_one: "flt EPS (Fin 1)"
  by (simp add: EPS_eval flt_def is_nan_def is_inf_def val_def)

lemma update_renders_cases:
  assumes "py_truediv current (int_of (self_total self)) = Inr p"
    and "\<not> fgt p (Fin 1)"
    and "percentage_of p = Inr pct"
    and "completed_of p (int_of (self_width self)) = Inr c"
    and "eta_string (elapsed_at E (self, t)) (if flt p (Fin 0) then EPS else p) = Inr ef"
  shows "update E current (self, t) =
     (case written E c (int_of (self_width self) - c)
             (rendered_line E (feq (if flt p (Fin 0) then EPS else p) (Fin 1))
                (self_text self) pct c (int_of (self_width self) - c)
                (if flt (if flt p (Fin 0) then EPS else p) (Fin 1) then ascii ''ETA: '' @ ef
                 else ascii ''Elapsed: '' @ format_f 2 (elapsed_at E (self, t))
                        @ ascii ''s''))
             (if flt (if flt p (Fin 0) then EPS else p) (Fin 1) then [13] else [10]) of
        (Some e, out) \<Rightarrow>
          (Some e,
           self\<lparr>self_start := Some (started E (self, t)),
             self_progress := (if flt p (Fin 0) then EPS else p)\<rparr>,
           t\<lparr>ticks := Suc (ticks (snd (start_timer E (self, t)))),
             cursor_visible := feq (if flt p (Fin 0) then EPS else p) (Fin 1),
             stdout := stdout t @ out\<rparr>)
      | (None, out) \<Rightarrow>
          (None,
           self\<lparr>self_start := Some (started E (self, t)),
             self_progress := (if flt p (Fin 0) then EPS else p),
             self_LAST := Some (clock E (Suc (ticks (snd (start_timer E (self, t))))))\<rparr>,
           t\<lparr>ticks := Suc (Suc (ticks (snd (start_timer E (self, t))))),
             cursor_visible := feq (if flt p (Fin 0) then EPS else p) (Fin 1),
             stdout := stdout t @ out\<rparr>))"
  using assms
  by (cases "flt p (Fin 0)")
    (simp_all add: update_eq start_timer_eq display_eq elapsed_at_def
      split: prod.splits option.splits)

lemma update_renders:
  assumes "py_truediv current (int_of (self_total self)) = Inr p"
    and "\<not> fgt p (Fin 1)"
    and "percentage_of p = Inr pct"
    and "completed_of p (int_of (self_width self)) = Inr c"
    and "eta_string (elapsed_at E (self, t)) (if flt p (Fin 0) then EPS else p) = Inr ef"
    and "index_sized c" and "index_sized (int_of (self_width self) - c)"
    and "fits E (rendered_line E (feq (if flt p (Fin 0) then EPS else p) (Fin 1))
            (self_text self) pct c (int_of (self_width self) - c)
            (if flt (if flt p (Fin 0) then EPS else p) (Fin 1) then ascii ''ETA: '' @ ef
             else ascii ''Elapsed: '' @ format_f 2 (elapsed_at E (self, t)) @ ascii ''s''))"
    and "list_all (encodable E)
           (if flt (if flt p (Fin 0) then EPS else p) (Fin 1) then [13] else [10])"
  shows "update E current (self, t) =
     (None,
      self\<lparr>self_start := Some (started E (self, t)),
        self_progress := (if flt p (Fin 0) then EPS else p),
        self_LAST := Some (clock E (Suc (ticks (snd (start_timer E (self, t))))))\<rparr>,
      t\<lparr>ticks := Suc (Suc (ticks (snd (start_timer E (self, t))))),
        cursor_visible := feq (if flt p (Fin 0) then EPS else p) (Fin 1),
        stdout := stdout t @
          rendered_line E (feq (if flt p (Fin 0) then EPS else p) (Fin 1)) (self_text self)
            pct c (int_of (self_width self) - c)
            (if flt (if flt p (Fin 0) then EPS else p) (Fin 1) then ascii ''ETA: '' @ ef
             else ascii ''Elapsed: '' @ format_f 2 (elapsed_at E (self, t)) @ ascii ''s'')
          @ (if flt (if flt p (Fin 0) then EPS else p) (Fin 1) then [13] else [10])\<rparr>)"
  unfolding update_renders_cases [OF assms(1-5)]
    written_line_ok [OF assms(6-9)]
  by simp

lemma update_returns:
  assumes "update E current (self, t) = (None, self', t')"
  shows "\<exists>p pct c. py_truediv current (int_of (self_total self)) = Inr p
     \<and> percentage_of p = Inr pct
     \<and> completed_of p (int_of (self_width self)) = Inr c
     \<and> (fgt p (Fin 1) \<or>
         (\<exists>ef. eta_string (elapsed_at E (self, t)) (if flt p (Fin 0) then EPS else p)
                 = Inr ef))"
  using assms
  by (auto simp: update_eq start_timer_eq display_eq elapsed_at_def
      split: sum.splits if_splits prod.splits option.splits)

lemma line_in_full:
  "rendered_line E False label pct c r (ascii ''ETA: '' @ ef) =
     ascii '' '' @ Fore_RED E @ [64] @ ascii '' '' @ Fore_RED E @ label
     @ ascii '' '' @ Fore_YELLOW E @ repeated SYMBOL c @ Fore_BLACK E @ repeated SYMBOL r
     @ ascii '' '' @ Fore_RED E @ ascii ''['' @ rjust 6 (format_f 2 pct) @ ascii '' %]''
     @ ascii '' '' @ Fore_RED E @ ascii ''ETA: '' @ ef"
  by (simp add: rendered_line_def text_colour_def progress_colour_def ICON_of_def ascii_def)

text \<open>
  Claim C7, as amended.  Every update that returns with a stored fraction below \<open>1\<close>
  has appended exactly this to the output: a space, the glyph \<^verbatim>\<open>@\<close>, a space, the
  label, a space, the run of filled cells, the run of empty cells, a space, \<^verbatim>\<open>[\<close>, the
  percentage with two decimals right-justified to width six, a space, \<^verbatim>\<open>%]\<close>, a
  space, \<^verbatim>\<open>ETA: \<close>, the formatted ETA, and a carriage return; the colour codes of the
  label (before the glyph, the label, the bracket and the ETA), of the progress and of
  the remaining cells precede their segments.
\<close>

theorem in_progress_line:
  assumes "update E current (self, t) = (None, self', t')"
    and "flt (self_progress self') (Fin 1)"
  shows "\<exists>p pct c ef.
      py_truediv current (int_of (self_total self)) = Inr p
    \<and> percentage_of p = Inr pct
    \<and> completed_of p (int_of (self_width self)) = Inr c
    \<and> eta_string (elapsed_at E (self, t)) (self_progress self') = Inr ef
    \<and> stdout t' = stdout t @
        ascii '' '' @ Fore_RED E @ [64] @ ascii '' '' @ Fore_RED E @ self_text self
        @ ascii '' '' @ Fore_YELLOW E @ repeated SYMBOL c
        @ Fore_BLACK E @ repeated SYMBOL (int_of (self_width self) - c)
        @ ascii '' '' @ Fore_RED E @ ascii ''['' @ rjust 6 (format_f 2 pct) @ ascii '' %]''
        @ ascii '' '' @ Fore_RED E @ ascii ''ETA: '' @ ef @ [13]"
proof -
  from update_returns [OF assms(1)]
  obtain p pct c where p: "py_truediv current (int_of (self_total self)) = Inr p"
    and pct: "percentage_of p = Inr pct"
    and c: "completed_of p (int_of (self_width self)) = Inr c"
    and alt: "fgt p (Fin 1) \<or>
         (\<exists>ef. eta_string (elapsed_at E (self, t)) (if flt p (Fin 0) then EPS else p)
                 = Inr ef)"
    by blast
  have no: "\<not> fgt p (Fin 1)"
  proof
    assume g: "fgt p (Fin 1)"
    from update_overshoot [OF p g, of E t] assms(1) have "self_progress self' = p" by auto
    with assms(2) g flt_one_not_done [of p] show False by simp
  qed
  with alt obtain ef
    where ef: "eta_string (elapsed_at E (self, t)) (if flt p (Fin 0) then EPS else p) = Inr ef"
    by blast
  let ?q = "if flt p (Fin 0) then EPS else p"
  let ?line = "rendered_line E (feq ?q (Fin 1)) (self_text self)
            pct c (int_of (self_width self) - c)
            (if flt ?q (Fin 1) then ascii ''ETA: '' @ ef
             else ascii ''Elapsed: '' @ format_f 2 (elapsed_at E (self, t)) @ ascii ''s'')"
  let ?ending = "if flt ?q (Fin 1) then [13] else [10]"
  obtain x out where wr: "written E c (int_of (self_width self) - c) ?line ?ending = (x, out)"
    by (cases "written E c (int_of (self_width self) - c) ?line ?ending") blast
  from update_renders_cases [OF p no pct c ef] assms(1) wr
  have x: "x = None" and q: "self_progress self' = ?q"
    and o: "stdout t' = stdout t @ out"
    by (auto split: option.splits)
  from wr x have "out = ?line @ ?ending" by (simp add: written_None)
  with o have out: "stdout t' = stdout t @ ?line @ ?ending" by simp
  have lt: "flt ?q (Fin 1)" using assms(2) q by simp
  have nd: "\<not> feq ?q (Fin 1)" using flt_one_not_done [OF lt] by simp
  have "stdout t' = stdout t @
          rendered_line E False (self_text self) pct c (int_of (self_width self) - c)
            (ascii ''ETA: '' @ ef) @ [13]"
    using out lt nd by (simp only: if_True if_False)
  then have "stdout t' = stdout t @
        ascii '' '' @ Fore_RED E @ [64] @ ascii '' '' @ Fore_RED E @ self_text self
        @ ascii '' '' @ Fore_YELLOW E @ repeated SYMBOL c
        @ Fore_BLACK E @ repeated SYMBOL (int_of (self_width self) - c)
        @ ascii '' '' @ Fore_RED E @ ascii ''['' @ rjust 6 (format_f 2 pct) @ ascii '' %]''
        @ ascii '' '' @ Fore_RED E @ ascii ''ETA: '' @ ef @ [13]"
    by (simp only: line_in_full append_assoc)
  moreover have "eta_string (elapsed_at E (self, t)) (self_progress self') = Inr ef"
    using ef q by simp
  ultimately show ?thesis using p pct c by blast
qed

subsection \<open>Half way\<close>

lemma rnd_half [simp]: "rnd (1 / 2) = Fin (1 / 2)"
  by (rule rnd_exact [where m = 1 and k = "- 1"]) (simp_all add: pow2_def)

lemma one_half: "py_truediv 1 2 = Inr (Fin (1 / 2))"
  by (simp add: py_truediv_def)

lemma percentage_of_half: "percentage_of (Fin (1 / 2)) = Inr (Fin 50)"
  by (simp add: percentage_of_def py_round_nd_def float_defs Let_def)

lemma completed_of_half_4: "completed_of (Fin (1 / 2)) 4 = Inr 2"
  by (simp add: completed_of_def int_to_float_small float_defs)

lemma eta_of_half: "eta_of (Fin 10) (Fin (1 / 2)) = Inr (Fin 11)"
  by (simp add: eta_of_def float_defs)

lemma eta_format_11: "eta_format (Fin 11) = Inr (ascii ''00:11'')"
  by (simp add: eta_format_def float_defs str_defs Let_def)

lemma eta_string_half: "eta_string (Fin 10) (Fin (1 / 2)) = Inr (ascii ''00:11'')"
  by (simp add: eta_string_def eta_of_half eta_format_11)

lemma format_50: "rjust 6 (format_f 2 (Fin 50)) = ascii '' 50.00''"
  by (simp add: format_f_def str_defs Let_def)

lemma half_cmp: "\<not> flt (Fin (1 / 2)) (Fin 0)" "\<not> fgt (Fin (1 / 2)) (Fin 1)"
  "flt (Fin (1 / 2)) (Fin 1)" "\<not> feq (Fin (1 / 2)) (Fin 1)"
  by (simp_all add: float_defs)

lemma two_cells: "repeated SYMBOL 2 = [9473, 9473]"
  by (simp add: repeated_def SYMBOL_def numeral_2_eq_2)

lemma half_way_plain:
  "update plain_env 1 (new_bar 2 4, fresh_io) =
     (None,
      new_bar 2 4\<lparr>self_start := Some (Fin 0), self_progress := Fin (1 / 2),
        self_LAST := Some (Fin 20)\<rparr>,
      \<lparr>ticks = 3,
        stdout = ascii '' @ Progress '' @ [9473, 9473] @ [9473, 9473]
          @ ascii '' [ 50.00 %] ETA: 00:11'' @ [13],
        cursor_visible = False\<rparr>)"
proof -
  have e: "eta_string (elapsed_at plain_env (new_bar 2 4, fresh_io))
      (if flt (Fin (1 / 2)) (Fin 0) then EPS else Fin (1 / 2)) = Inr (ascii ''00:11'')"
    by (simp add: elapsed_fresh_plain half_cmp eta_string_half)
  have p: "py_truediv 1 (int_of (self_total (new_bar 2 4))) = Inr (Fin (1 / 2))"
    by (simp add: one_half)
  have c: "completed_of (Fin (1 / 2)) (int_of (self_width (new_bar 2 4))) = Inr 2"
    by (simp add: completed_of_half_4)
  have i: "index_sized 2" "index_sized (int_of (self_width (new_bar 2 4)) - 2)"
    by (simp_all add: index_sized_def)
  have f: "fits plain_env
      (rendered_line plain_env
        (feq (if flt (Fin (1 / 2)) (Fin 0) then EPS else Fin (1 / 2)) (Fin 1))
        (self_text (new_bar 2 4)) (Fin 50) 2 (int_of (self_width (new_bar 2 4)) - 2)
        (if flt (if flt (Fin (1 / 2)) (Fin 0) then EPS else Fin (1 / 2)) (Fin 1)
         then ascii ''ETA: '' @ ascii ''00:11''
         else ascii ''Elapsed: '' @ format_f 2 (elapsed_at plain_env (new_bar 2 4, fresh_io))
                @ ascii ''s''))"
    by (simp add: half_cmp fits_def rendered_line_def text_colour_def progress_colour_def
        ICON_of_def format_50 two_cells ascii_def)
  have n: "list_all (encodable plain_env)
      (if flt (if flt (Fin (1 / 2)) (Fin 0) then EPS else Fin (1 / 2)) (Fin 1)
       then [13] else [10])"
    by (simp add: half_cmp)
  show ?thesis
    unfolding update_renders [OF p half_cmp(2) percentage_of_half c e i f n]
    by (simp add: half_cmp started_def start_timer_eq rendered_line_def text_colour_def
        progress_colour_def ICON_of_def format_50 two_cells
        fresh_io_def ascii_def)
qed

section \<open>The shape of the formatted ETA\<close>

lemma length_zfill: "length (zfill w s) = max w (length s)"
  by (cases s) (auto simp: zfill_def)

lemma length_str_digits_small:
  assumes "0 \<le> n" "n < 100"
  shows "length (str_digits n) \<le> 2"
proof (cases "n < 10")
  case True
  then show ?thesis by (subst str_digits.simps) simp
next
  case False
  have "n div 10 < 10" using assms by simp
  then have "str_digits (n div 10) = [48 + nat (n div 10)]"
    by (subst str_digits.simps) simp
  then show ?thesis using False by (subst str_digits.simps) simp
qed

lemma length_str_digits_pos: "0 < length (str_digits n)"
  by (subst str_digits.simps) simp

lemma two_digits: "0 \<le> n \<Longrightarrow> n < 100 \<Longrightarrow> length (zfill 2 (str_int n)) = 2"
  using length_str_digits_small [of n] by (simp add: length_zfill str_int_def)

lemma rnd_bound_pos:
  assumes "0 < x" "x < 64"
  shows "\<exists>y. rnd x = Fin y \<and> 0 \<le> y \<and> y \<le> 64"
proof -
  have x0: "x \<noteq> 0" using assms by simp
  define e where "e = max (ilog2 \<bar>x\<bar>) (- 1022)"
  define m where "m = rhe (x / pow2 (e - 52))"
  have ax: "\<bar>x\<bar> = x" using assms by simp
  have "pow2 (ilog2 x) \<le> x" using ilog2_bounds(1) [OF assms(1)] .
  also have "x < pow2 6" using assms(2) by (simp add: pow2_def)
  finally have "ilog2 x < 6" by (rule pow2_less_cancel)
  then have e5: "e \<le> 5" by (simp add: e_def ax)
  have "x < pow2 (ilog2 x + 1)" using ilog2_bounds(2) [OF assms(1)] .
  also have "\<dots> \<le> pow2 (e + 1)" by (intro pow2_mono) (simp add: e_def ax)
  also have "\<dots> = 2 ^ 53 * pow2 (e - 52)" by (rule pow2_shift53)
  finally have q: "x / pow2 (e - 52) < 2 ^ 53" by (simp add: pos_divide_less_eq)
  have qn: "0 \<le> x / pow2 (e - 52)" using assms(1) by (simp add: less_imp_le)
  have m0: "0 \<le> m" unfolding m_def using qn by (rule rhe_nonneg)
  have "x / pow2 (e - 52) \<le> of_int (2 ^ 53)" using q by simp
  then have "m \<le> 2 ^ 53" unfolding m_def by (rule rhe_le)
  then have "(of_int m :: rat) \<le> of_int (2 ^ 53)" by (simp only: of_int_le_iff)
  then have "of_int m * pow2 (e - 52) \<le> 2 ^ 53 * pow2 (e - 52)" by simp
  also have "\<dots> = pow2 (e + 1)" by (rule pow2_shift53 [symmetric])
  also have "\<dots> \<le> pow2 6" using e5 by (intro pow2_mono) simp
  finally have r64: "of_int m * pow2 (e - 52) \<le> 64" by (simp add: pow2_def)
  have "(0::rat) \<le> of_int m" using m0 by simp
  then have r0: "0 \<le> of_int m * pow2 (e - 52)"
    by (intro mult_nonneg_nonneg) (simp_all add: less_imp_le)
  have "of_int m * pow2 (e - 52) \<le> MAXF" using r64 by (intro small_le_MAXF) simp
  then have "\<not> MAXF < \<bar>of_int m * pow2 (e - 52)\<bar>" using r0 by simp
  then show ?thesis
    unfolding rnd_unfold [OF x0 e_def m_def] using r0 r64 assms(1) by auto
qed

lemma trunc_nonneg: "0 \<le> z \<Longrightarrow> 0 \<le> z - of_int (trunc z) \<and> z - of_int (trunc z) < 1"
  unfolding trunc_def by simp linarith

lemma trunc_neg: "z < 0 \<Longrightarrow> - 1 < z - of_int (trunc z) \<and> z - of_int (trunc z) \<le> 0"
  unfolding trunc_def by simp linarith

lemma trunc_range: "0 \<le> y \<Longrightarrow> y \<le> of_int n \<Longrightarrow> 0 \<le> trunc y \<and> trunc y \<le> n"
  unfolding trunc_def by (simp add: floor_le_iff)

lemma fmod_60:
  assumes "x \<noteq> 0"
  defines "rr \<equiv> x - of_int (trunc (x / 60)) * 60"
  shows "fmod (Fin x) (Fin 60) = (if rr = 0 then zero_signed (x < 0) else Fin rr)"
    and "- 60 < rr" and "rr < 60" and "0 < x \<Longrightarrow> 0 \<le> rr" and "x < 0 \<Longrightarrow> rr \<le> 0"
proof -
  show "fmod (Fin x) (Fin 60) = (if rr = 0 then zero_signed (x < 0) else Fin rr)"
    using assms(1)
    by (simp add: fmod_def is_nan_def is_inf_def is_zero_def val_def signbit_def rr_def Let_def)
  have rr: "rr = 60 * (x / 60 - of_int (trunc (x / 60)))" by (simp add: rr_def algebra_simps)
  show "- 60 < rr" "rr < 60"
    using trunc_nonneg [of "x / 60"] trunc_neg [of "x / 60"] unfolding rr
    by (cases "0 \<le> x / 60"; simp; linarith)+
  show "0 \<le> rr" if "0 < x"
    using trunc_nonneg [of "x / 60"] that unfolding rr by simp
  show "rr \<le> 0" if "x < 0"
    using trunc_neg [of "x / 60"] that unfolding rr by (simp add: mult_le_0_iff)
qed

lemma float_rem_60_range:
  assumes "float_rem a (Fin 60) = Inr r" and "py_int r = Inr se"
  shows "0 \<le> se \<and> se \<le> 64"
proof (cases a)
  case (Fin x)
  show ?thesis
  proof (cases "x = 0")
    case True
    then show ?thesis
      using assms by (auto simp: Fin float_rem_def fmod_def float_defs)
  next
    case x0: False
    define rr where "rr = x - of_int (trunc (x / 60)) * 60"
    note f = fmod_60 [OF x0, folded rr_def]
    show ?thesis
    proof (cases "rr = 0")
      case True
      then have "fmod (Fin x) (Fin 60) = zero_signed (x < 0)" using f(1) by simp
      then have "float_rem a (Fin 60) = Inr (Fin 0)"
        by (simp add: Fin float_rem_def truthy_def is_zero_def zero_signed_def signbit_def
            Let_def)
      then have "r = Fin 0" using assms(1) by simp
      then show ?thesis using assms(2) by (simp add: py_int_def trunc_def)
    next
      case r0: False
      show ?thesis
      proof (cases "rr < 0")
        case True
        have "0 < rr + 60" "rr + 60 < 64" using f(2) True by simp_all
        from rnd_bound_pos [OF this] obtain y where y: "rnd (rr + 60) = Fin y" "0 \<le> y" "y \<le> 64"
          by blast
        have "r = Fin y"
          using assms(1) f(1) r0 True y(1)
          by (simp add: Fin float_rem_def truthy_def is_zero_def flt_def fadd_def is_nan_def
              is_inf_def val_def)
        then show ?thesis using assms(2) trunc_range [of y 64] y by (simp add: py_int_def)
      next
        case False
        then have pos: "0 < rr" using r0 by simp
        have "r = Fin rr"
          using assms(1) f(1) r0 False
          by (simp add: Fin float_rem_def truthy_def is_zero_def flt_def is_nan_def
              is_inf_def val_def)
        then show ?thesis
          using assms(2) trunc_range [of rr 64] pos f(3) by (simp add: py_int_def)
      qed
    qed
  qed
next
  case NZ
  then show ?thesis using assms by (auto simp: float_rem_def fmod_def float_defs)
next
  case PInf
  then show ?thesis using assms by (auto simp: float_rem_def fmod_def float_defs)
next
  case NInf
  then show ?thesis using assms by (auto simp: float_rem_def fmod_def float_defs)
next
  case NaN
  then show ?thesis using assms by (auto simp: float_rem_def fmod_def float_defs)
qed

lemma eta_format_shape:
  assumes "eta_format eta = Inr ef"
  shows "\<exists>qm mi r se. float_floordiv eta (Fin 60) = Inr qm \<and> py_int qm = Inr mi
     \<and> float_rem eta (Fin 60) = Inr r \<and> py_int r = Inr se
     \<and> ef = zfill 2 (str_int mi) @ [58] @ zfill 2 (str_int se)
     \<and> 2 \<le> length (zfill 2 (str_int mi)) \<and> length (zfill 2 (str_int se)) = 2"
proof -
  from assms obtain q mi r se where q: "float_floordiv eta (Fin 60) = Inr q" "py_int q = Inr mi"
    and r: "float_rem eta (Fin 60) = Inr r" and se: "py_int r = Inr se"
    and ef: "ef = zfill 2 (str_int mi) @ [58] @ zfill 2 (str_int se)"
    by (auto simp: eta_format_def split: sum.splits)
  have b: "0 \<le> se \<and> se \<le> 64" using r se by (rule float_rem_60_range)
  then have "length (zfill 2 (str_int se)) = 2" by (intro two_digits) simp_all
  then show ?thesis using ef q r se by (auto simp: length_zfill)
qed

subsection \<open>Minutes and seconds\<close>

lemma floor_div_60:
  fixes x :: rat
  assumes "0 \<le> x"
  shows "\<lfloor>x / 60\<rfloor> = \<lfloor>x\<rfloor> div 60"
proof (rule floor_unique)
  have a: "of_int \<lfloor>x\<rfloor> \<le> x" "x < of_int \<lfloor>x\<rfloor> + 1" by linarith+
  have b: "60 * (\<lfloor>x\<rfloor> div 60) \<le> \<lfloor>x\<rfloor>" "\<lfloor>x\<rfloor> < 60 * (\<lfloor>x\<rfloor> div 60) + 60"
    by presburger+
  have c: "(of_int (60 * (\<lfloor>x\<rfloor> div 60)) :: rat) \<le> of_int \<lfloor>x\<rfloor>"
    "(of_int \<lfloor>x\<rfloor> :: rat) + 1 \<le> of_int (60 * (\<lfloor>x\<rfloor> div 60) + 60)"
  proof -
    show "(of_int (60 * (\<lfloor>x\<rfloor> div 60)) :: rat) \<le> of_int \<lfloor>x\<rfloor>"
      using b(1) by (simp only: of_int_le_iff)
    have "\<lfloor>x\<rfloor> + 1 \<le> 60 * (\<lfloor>x\<rfloor> div 60) + 60" using b(2) by simp
    then have "(of_int (\<lfloor>x\<rfloor> + 1) :: rat) \<le> of_int (60 * (\<lfloor>x\<rfloor> div 60) + 60)"
      by (simp only: of_int_le_iff)
    then show "(of_int \<lfloor>x\<rfloor> :: rat) + 1 \<le> of_int (60 * (\<lfloor>x\<rfloor> div 60) + 60)" by simp
  qed
  have "of_int (\<lfloor>x\<rfloor> div 60) * 60 \<le> (of_int \<lfloor>x\<rfloor> :: rat)" using c(1) by simp
  then have "of_int (\<lfloor>x\<rfloor> div 60) * 60 \<le> x" using a(1) by (rule order_trans)
  then show "of_int (\<lfloor>x\<rfloor> div 60) \<le> x / 60" by (simp add: pos_le_divide_eq)
  have "x < of_int (60 * (\<lfloor>x\<rfloor> div 60) + 60)" using a(2) c(2) by (rule less_le_trans)
  then have "x < (of_int (\<lfloor>x\<rfloor> div 60) + 1) * 60" by (simp add: algebra_simps)
  then show "x / 60 < of_int (\<lfloor>x\<rfloor> div 60) + 1" by (simp only: pos_divide_less_eq zero_less_numeral)
qed

lemma trunc_div_60: "(0::rat) \<le> x \<Longrightarrow> trunc (x / 60) = \<lfloor>x\<rfloor> div 60"
  by (simp add: trunc_def floor_div_60)

lemma rem_part:
  fixes x :: rat
  assumes "0 \<le> x"
  defines "rr \<equiv> x - of_int (\<lfloor>x\<rfloor> div 60) * 60"
  shows "0 \<le> rr" "rr < 60" "\<lfloor>rr\<rfloor> = \<lfloor>x\<rfloor> mod 60"
proof -
  have a: "of_int \<lfloor>x\<rfloor> \<le> x" "x < of_int \<lfloor>x\<rfloor> + 1" by linarith+
  have e: "rr = x - of_int (60 * (\<lfloor>x\<rfloor> div 60))" by (simp add: rr_def)
  have m: "\<lfloor>x\<rfloor> mod 60 = \<lfloor>x\<rfloor> - 60 * (\<lfloor>x\<rfloor> div 60)" by (simp add: minus_mult_div_eq_mod)
  have "\<lfloor>rr\<rfloor> = \<lfloor>x\<rfloor> - 60 * (\<lfloor>x\<rfloor> div 60)" unfolding e by (rule floor_diff_of_int)
  then show f: "\<lfloor>rr\<rfloor> = \<lfloor>x\<rfloor> mod 60" using m by simp
  have "0 \<le> \<lfloor>rr\<rfloor>" "\<lfloor>rr\<rfloor> < 60" using f by simp_all
  then show "0 \<le> rr" "rr < 60" by (simp_all add: floor_less_iff)
qed

lemma minutes_small:
  fixes x :: rat
  assumes "0 \<le> x" "x < 2 ^ 53"
  shows "0 \<le> \<lfloor>x\<rfloor> div 60" "\<bar>\<lfloor>x\<rfloor> div 60\<bar> < 2 ^ 53" "\<bar>60 * (\<lfloor>x\<rfloor> div 60)\<bar> < 2 ^ 53"
proof -
  have f0: "0 \<le> \<lfloor>x\<rfloor>" using assms(1) by simp
  have "x < of_int (2 ^ 53)" using assms(2) by simp
  then have f1: "\<lfloor>x\<rfloor> < 2 ^ 53" by (simp only: floor_less_iff)
  show k0: "0 \<le> \<lfloor>x\<rfloor> div 60" using f0 by (simp add: pos_imp_zdiv_nonneg_iff)
  have le: "60 * (\<lfloor>x\<rfloor> div 60) \<le> \<lfloor>x\<rfloor>" by presburger
  have lt: "60 * (\<lfloor>x\<rfloor> div 60) < 2 ^ 53" using le f1 by (rule le_less_trans)
  have a: "\<bar>60 * (\<lfloor>x\<rfloor> div 60)\<bar> = 60 * (\<lfloor>x\<rfloor> div 60)" using k0 by simp
  show "\<bar>60 * (\<lfloor>x\<rfloor> div 60)\<bar> < 2 ^ 53" unfolding a by (rule lt)
  have "\<lfloor>x\<rfloor> div 60 \<le> 60 * (\<lfloor>x\<rfloor> div 60)" using k0 by simp
  then have "\<lfloor>x\<rfloor> div 60 < 2 ^ 53" using lt by (rule le_less_trans)
  then show "\<bar>\<lfloor>x\<rfloor> div 60\<bar> < 2 ^ 53" using k0 by simp
qed

lemma floordiv_60_value:
  assumes "0 \<le> x" "x < 2 ^ 53"
  shows "float_floordiv (Fin x) (Fin 60) = Inr (Fin (of_int (\<lfloor>x\<rfloor> div 60)))"
proof (cases "x = 0")
  case True
  then show ?thesis by (simp add: float_defs Let_def)
next
  case x0: False
  define k where "k = \<lfloor>x\<rfloor> div 60"
  define rr where "rr = x - of_int k * 60"
  note k = minutes_small [OF assms, folded k_def]
  note r = rem_part [OF assms(1), folded k_def, folded rr_def]
  have md: "fmod (Fin x) (Fin 60) = (if rr = 0 then Fin 0 else Fin rr)"
    using fmod_60(1) [OF x0] assms(1)
    by (simp add: trunc_div_60 rr_def k_def zero_signed_def)
  have xr: "x - rr = of_int (60 * k)" by (simp add: rr_def)
  have r60: "rnd (of_int (60 * k)) = Fin (of_int (60 * k))" using k(3) by (rule rnd_int)
  have sub: "fsub (Fin x) (fmod (Fin x) (Fin 60)) = Fin (of_int (60 * k))"
  proof (cases "rr = 0")
    case True
    then have m0: "fmod (Fin x) (Fin 60) = Fin 0" using md by simp
    have "x = of_int (60 * k)" using xr True by simp
    then have "rnd x = Fin (of_int (60 * k))" using r60 by simp
    then show ?thesis
      unfolding m0 using x0
      by (simp add: fsub_def fadd_def fneg_def is_nan_def is_inf_def is_zero_def val_def)
  next
    case False
    then have m0: "fmod (Fin x) (Fin 60) = Fin rr" using md by simp
    have "rnd (x - rr) = Fin (of_int (60 * k))" using r60 unfolding xr .
    then show ?thesis
      unfolding m0 using x0 False
      by (simp add: fsub_def fadd_def fneg_def is_nan_def is_inf_def is_zero_def val_def)
  qed
  have dv: "cdiv (Fin (of_int (60 * k))) (Fin 60) = Fin (of_int k)"
  proof (cases "k = 0")
    case True
    then show ?thesis
      by (simp add: cdiv_def is_nan_def is_inf_def is_zero_def zero_signed_def signbit_def)
  next
    case False
    then show ?thesis
      using k(2) by (simp add: cdiv_def is_nan_def is_inf_def is_zero_def val_def rnd_int)
  qed
  have nl: "\<not> flt (fmod (Fin x) (Fin 60)) (Fin 0)" "\<not> flt (Fin 60) (Fin 0)"
    using r(1) by (simp_all add: md flt_def is_nan_def is_inf_def val_def)
  have step: "float_floordiv (Fin x) (Fin 60) =
      (if truthy (Fin (of_int k))
       then Inr (if fgt (fsub (Fin (of_int k)) (ffloor (Fin (of_int k)))) (Fin (1 / 2))
                 then fadd (ffloor (Fin (of_int k))) (Fin 1) else ffloor (Fin (of_int k)))
       else Inr (zero_signed (signbit (Fin x) \<noteq> signbit (Fin 60))))"
    unfolding float_floordiv_def Let_def sub dv using nl by (simp add: is_zero_def)
  show ?thesis
  proof (cases "k = 0")
    case True
    have "float_floordiv (Fin x) (Fin 60) = Inr (Fin 0)"
      unfolding step using assms(1)
      by (simp add: True truthy_def is_zero_def zero_signed_def signbit_def)
    then show ?thesis using True by (simp add: k_def)
  next
    case False
    have "float_floordiv (Fin x) (Fin 60) = Inr (Fin (of_int k))"
      unfolding step using False
      by (simp add: truthy_def is_zero_def ffloor_def fsub_def fadd_def fneg_def is_nan_def
          is_inf_def val_def rnd_0 fgt_def flt_def)
    then show ?thesis by (simp add: k_def)
  qed
qed

lemma rem_60_value:
  assumes "0 \<le> x"
  shows "float_rem (Fin x) (Fin 60) = Inr (Fin (x - of_int (\<lfloor>x\<rfloor> div 60) * 60))"
proof (cases "x = 0")
  case True
  then show ?thesis by (simp add: float_defs Let_def)
next
  case x0: False
  define k where "k = \<lfloor>x\<rfloor> div 60"
  define rr where "rr = x - of_int k * 60"
  note r = rem_part [OF assms(1), folded k_def, folded rr_def]
  have md: "fmod (Fin x) (Fin 60) = (if rr = 0 then Fin 0 else Fin rr)"
    using fmod_60(1) [OF x0] assms(1)
    by (simp add: trunc_div_60 rr_def k_def zero_signed_def)
  have nl: "\<not> flt (fmod (Fin x) (Fin 60)) (Fin 0)" "\<not> flt (Fin 60) (Fin 0)"
    using r(1) by (simp_all add: md flt_def is_nan_def is_inf_def val_def)
  have step: "float_rem (Fin x) (Fin 60) =
      (if truthy (fmod (Fin x) (Fin 60)) then Inr (fmod (Fin x) (Fin 60))
       else Inr (zero_signed (signbit (Fin 60))))"
    unfolding float_rem_def Let_def using nl by (simp add: is_zero_def)
  have "float_rem (Fin x) (Fin 60) = Inr (Fin rr)"
    unfolding step md
    by (simp add: truthy_def is_zero_def zero_signed_def signbit_def)
  then show ?thesis by (simp add: rr_def k_def)
qed

lemma eta_format_value:
  assumes "0 \<le> x" "x < 2 ^ 53"
  shows "eta_format (Fin x) =
     Inr (zfill 2 (str_int (\<lfloor>x\<rfloor> div 60)) @ [58] @ zfill 2 (str_int (\<lfloor>x\<rfloor> mod 60)))"
proof -
  have "trunc (x - of_int (\<lfloor>x\<rfloor> div 60) * 60) = \<lfloor>x\<rfloor> mod 60"
    using rem_part [OF assms(1)] by (simp add: trunc_def)
  then show ?thesis
    by (simp add: eta_format_def floordiv_60_value [OF assms] rem_60_value [OF assms(1)]
        py_int_def trunc_def)
qed

lemma eta_format_3661: "eta_format (Fin 3661) = Inr (ascii ''61:01'')"
proof -
  have "(3661::rat) < 2 ^ 53" by simp
  from eta_format_value [OF _ this] show ?thesis
    by (simp add: str_defs)
qed

lemma eta_format_parts:
  assumes "float_floordiv (Fin x) (Fin 60) = Inr qm" "py_int qm = Inr mi"
    and "float_rem (Fin x) (Fin 60) = Inr r" "py_int r = Inr se"
    and "0 \<le> x" "x < 2 ^ 53"
  shows "mi = \<lfloor>x\<rfloor> div 60 \<and> se = \<lfloor>x\<rfloor> mod 60"
proof -
  have t: "trunc (x - of_int (\<lfloor>x\<rfloor> div 60) * 60) = \<lfloor>x\<rfloor> mod 60"
    using rem_part [OF assms(5)] by (simp add: trunc_def)
  have "qm = Fin (of_int (\<lfloor>x\<rfloor> div 60))"
    using assms(1) floordiv_60_value [OF assms(5,6)] by simp
  moreover have "r = Fin (x - of_int (\<lfloor>x\<rfloor> div 60) * 60)"
    using assms(3) rem_60_value [OF assms(5)] by simp
  ultimately have "py_int (Fin (of_int (\<lfloor>x\<rfloor> div 60))) = Inr mi"
    and "py_int (Fin (x - of_int (\<lfloor>x\<rfloor> div 60) * 60)) = Inr se"
    using assms(2,4) by simp_all
  then have "trunc (of_int (\<lfloor>x\<rfloor> div 60)) = mi"
    and "trunc (x - of_int (\<lfloor>x\<rfloor> div 60) * 60) = se"
    by (simp_all add: py_int_def)
  moreover have "trunc (of_int (\<lfloor>x\<rfloor> div 60)) = \<lfloor>x\<rfloor> div 60"
    by (simp add: trunc_def)
  ultimately show ?thesis using t by simp
qed

lemma eta_of_4000: "eta_of (Fin 4000) (Fin (1 / 2)) = Inr (Fin 4001)"
  by (simp add: eta_of_def float_defs)

lemma eta_format_4001: "eta_format (Fin 4001) = Inr (ascii ''66:41'')"
proof -
  have "(4001::rat) < 2 ^ 53" by simp
  from eta_format_value [OF _ this] show ?thesis
    by (simp add: str_defs)
qed

lemma eta_string_4000: "eta_string (Fin 4000) (Fin (1 / 2)) = Inr (ascii ''66:41'')"
  by (simp add: eta_string_def eta_of_4000 eta_format_4001)

lemma long_wait_plain:
  "update plain_env 1 (new_bar 2 4\<lparr>self_start := Some (Fin 0)\<rparr>, fresh_io\<lparr>ticks := 400\<rparr>) =
     (None,
      new_bar 2 4\<lparr>self_start := Some (Fin 0), self_progress := Fin (1 / 2),
        self_LAST := Some (Fin 4010)\<rparr>,
      \<lparr>ticks = 402,
        stdout = ascii '' @ Progress '' @ [9473, 9473] @ [9473, 9473]
          @ ascii '' [ 50.00 %] ETA: 66:41'' @ [13],
        cursor_visible = False\<rparr>)"
proof -
  let ?b = "new_bar 2 4\<lparr>self_start := Some (Fin 0)\<rparr>"
  let ?t = "fresh_io\<lparr>ticks := 400\<rparr>"
  have el: "elapsed_at plain_env (?b, ?t) = Fin 4000"
    by (simp add: elapsed_at_def start_timer_eq started_def float_defs)
  have e: "eta_string (elapsed_at plain_env (?b, ?t))
      (if flt (Fin (1 / 2)) (Fin 0) then EPS else Fin (1 / 2)) = Inr (ascii ''66:41'')"
    by (simp add: el half_cmp eta_string_4000)
  have p: "py_truediv 1 (int_of (self_total ?b)) = Inr (Fin (1 / 2))"
    by (simp add: one_half)
  have c: "completed_of (Fin (1 / 2)) (int_of (self_width ?b)) = Inr 2"
    by (simp add: completed_of_half_4)
  have i: "index_sized 2" "index_sized (int_of (self_width ?b) - 2)"
    by (simp_all add: index_sized_def)
  have f: "fits plain_env
      (rendered_line plain_env
        (feq (if flt (Fin (1 / 2)) (Fin 0) then EPS else Fin (1 / 2)) (Fin 1))
        (self_text ?b) (Fin 50) 2 (int_of (self_width ?b) - 2)
        (if flt (if flt (Fin (1 / 2)) (Fin 0) then EPS else Fin (1 / 2)) (Fin 1)
         then ascii ''ETA: '' @ ascii ''66:41''
         else ascii ''Elapsed: '' @ format_f 2 (elapsed_at plain_env (?b, ?t))
                @ ascii ''s''))"
    by (simp add: half_cmp fits_def rendered_line_def text_colour_def progress_colour_def
        ICON_of_def format_50 two_cells ascii_def)
  have n: "list_all (encodable plain_env)
      (if flt (if flt (Fin (1 / 2)) (Fin 0) then EPS else Fin (1 / 2)) (Fin 1)
       then [13] else [10])"
    by (simp add: half_cmp)
  show ?thesis
    unfolding update_renders [OF p half_cmp(2) percentage_of_half c e i f n]
    by (simp add: half_cmp started_def start_timer_eq rendered_line_def text_colour_def
        progress_colour_def ICON_of_def format_50 two_cells
        fresh_io_def new_bar_def ascii_def)
qed

theorem in_progress_line_witness:
  "update plain_env 1 (new_bar 2 4, fresh_io) =
     (None,
      new_bar 2 4\<lparr>self_start := Some (Fin 0), self_progress := Fin (1 / 2),
        self_LAST := Some (Fin 20)\<rparr>,
      \<lparr>ticks = 3,
        stdout = ascii '' @ Progress '' @ [9473, 9473] @ [9473, 9473]
          @ ascii '' [ 50.00 %] ETA: 00:11'' @ [13],
        cursor_visible = False\<rparr>)
   \<and> flt (self_progress (new_bar 2 4\<lparr>self_start := Some (Fin 0),
        self_progress := Fin (1 / 2), self_LAST := Some (Fin 20)\<rparr>)) (Fin 1)
   \<and> (\<exists>pct c ef. ascii '' @ Progress '' @ [9473, 9473] @ [9473, 9473]
          @ ascii '' [ 50.00 %] ETA: 00:11'' @ [13]
        = ascii '' '' @ [64] @ ascii '' '' @ ascii ''Progress'' @ ascii '' ''
          @ repeated SYMBOL c @ repeated SYMBOL (4 - c)
          @ ascii '' '' @ ascii ''['' @ rjust 6 (format_f 2 pct) @ ascii '' %]''
          @ ascii '' '' @ ascii ''ETA: '' @ ef @ [13])"
proof -
  have h2: "flt (self_progress (new_bar 2 4\<lparr>self_start := Some (Fin 0),
        self_progress := Fin (1 / 2), self_LAST := Some (Fin 20)\<rparr>)) (Fin 1)"
    by (simp add: half_cmp)
  from in_progress_line [OF half_way_plain h2] half_way_plain h2
  show ?thesis by simp blast
qed

text \<open>
  Claim C7 as stated fails even on a terminal without colour codes: between the
  percentage and the percent sign the code prints a space.
\<close>

theorem in_progress_line_space_before_percent:
  "stdout (snd (snd (update plain_env 1 (new_bar 2 4, fresh_io))))
     = ascii '' @ Progress '' @ [9473, 9473] @ [9473, 9473]
       @ ascii '' [ 50.00 %] ETA: 00:11'' @ [13]
   \<and> stdout (snd (snd (update plain_env 1 (new_bar 2 4, fresh_io))))
     \<noteq> claimed_line [64] (ascii ''Progress'') [9473, 9473] [9473, 9473] (Fin 50)
         (ascii ''00:11'') @ [13]"
  by (simp add: half_way_plain claimed_line_def format_50 ascii_def)

section \<open>The ETA\<close>

lemma rendered_line_tail:
  "\<exists>pre. rendered_line E d label pct c r tail = pre @ tail"
  unfolding rendered_line_def
  by (rule exI [of _ "ascii '' '' @ text_colour E d @ ICON_of d
     @ ascii '' '' @ text_colour E d @ label
     @ ascii '' '' @ progress_colour E d @ repeated SYMBOL c
     @ Fore_BLACK E @ repeated SYMBOL r
     @ ascii '' '' @ text_colour E d
     @ ascii ''['' @ rjust 6 (format_f 2 pct) @ ascii '' %'' @ ascii '']''
     @ ascii '' '' @ text_colour E d"]) simp

text \<open>
  Claim C6.  On every update that renders, the ETA is
  \<^verbatim>\<open>(elapsed / fraction) * (1 - fraction) + 1\<close> in float arithmetic, with the stored
  fraction, and it is formatted as the minutes \<^verbatim>\<open>int(eta // 60)\<close>, padded with zeros
  to at least two characters, a colon, and the seconds \<^verbatim>\<open>int(eta % 60)\<close> as exactly two
  digits; the in-progress line ends with this text.  For an ETA from \<open>0\<close> up to \<open>2\<^sup>5\<^sup>3\<close>
  seconds the minutes are the whole seconds divided by sixty, however many, and the
  seconds are the remainder: \<open>3661\<close> seconds are formatted \<^verbatim>\<open>61:01\<close>.  For ten seconds
  elapsed and fraction one half the ETA is \<open>11\<close>, formatted \<^verbatim>\<open>00:11\<close>.
\<close>

theorem eta_formula_and_format:
  assumes "update E current (self, t) = (None, self', t')"
    and "\<not> fgt (self_progress self') (Fin 1)"
  shows "(\<exists>q eta ef qm mi r se.
      fdiv (elapsed_at E (self, t)) (self_progress self') = Inr q
    \<and> eta = fadd (fmul q (fsub (Fin 1) (self_progress self'))) (Fin 1)
    \<and> eta_format eta = Inr ef
    \<and> float_floordiv eta (Fin 60) = Inr qm \<and> py_int qm = Inr mi
    \<and> float_rem eta (Fin 60) = Inr r \<and> py_int r = Inr se
    \<and> ef = zfill 2 (str_int mi) @ [58] @ zfill 2 (str_int se)
    \<and> 2 \<le> length (zfill 2 (str_int mi)) \<and> length (zfill 2 (str_int se)) = 2
    \<and> (\<forall>x. eta = Fin x \<and> 0 \<le> x \<and> x < 2 ^ 53 \<longrightarrow>
          mi = \<lfloor>x\<rfloor> div 60 \<and> se = \<lfloor>x\<rfloor> mod 60)
    \<and> (flt (self_progress self') (Fin 1) \<longrightarrow>
         (\<exists>pre. stdout t' = pre @ ascii ''ETA: '' @ ef @ [13])))
    \<and> eta_of (Fin 10) (Fin (1 / 2)) = Inr (Fin 11)
    \<and> eta_format (Fin 11) = Inr (ascii ''00:11'')
    \<and> eta_format (Fin 3661) = Inr (ascii ''61:01'')"
proof -
  from update_returns [OF assms(1)]
  obtain p pct c where p: "py_truediv current (int_of (self_total self)) = Inr p"
    and pct: "percentage_of p = Inr pct"
    and c: "completed_of p (int_of (self_width self)) = Inr c"
    and alt: "fgt p (Fin 1) \<or>
         (\<exists>ef. eta_string (elapsed_at E (self, t)) (if flt p (Fin 0) then EPS else p)
                 = Inr ef)"
    by blast
  have no: "\<not> fgt p (Fin 1)"
  proof
    assume g: "fgt p (Fin 1)"
    from update_overshoot [OF p g, of E t] assms(1) have "self_progress self' = p" by auto
    with assms(2) g show False by simp
  qed
  with alt obtain ef
    where ef: "eta_string (elapsed_at E (self, t)) (if flt p (Fin 0) then EPS else p) = Inr ef"
    by blast
  let ?q = "if flt p (Fin 0) then EPS else p"
  let ?line = "rendered_line E (feq ?q (Fin 1)) (self_text self)
            pct c (int_of (self_width self) - c)
            (if flt ?q (Fin 1) then ascii ''ETA: '' @ ef
             else ascii ''Elapsed: '' @ format_f 2 (elapsed_at E (self, t)) @ ascii ''s'')"
  let ?ending = "if flt ?q (Fin 1) then [13] else [10]"
  obtain x out where wr: "written E c (int_of (self_width self) - c) ?line ?ending = (x, out)"
    by (cases "written E c (int_of (self_width self) - c) ?line ?ending") blast
  from update_renders_cases [OF p no pct c ef] assms(1) wr
  have x: "x = None" and q: "self_progress self' = ?q"
    and o: "stdout t' = stdout t @ out"
    by (auto split: option.splits)
  from wr x have "out = ?line @ ?ending" by (simp add: written_None)
  with o have out: "stdout t' = stdout t @ ?line @ ?ending" by simp
  from ef obtain qq where qq: "fdiv (elapsed_at E (self, t)) (self_progress self') = Inr qq"
    and fm: "eta_format (fadd (fmul qq (fsub (Fin 1) (self_progress self'))) (Fin 1)) = Inr ef"
    unfolding q by (auto simp: eta_string_def eta_of_def split: sum.splits)
  let ?eta = "fadd (fmul qq (fsub (Fin 1) (self_progress self'))) (Fin 1)"
  from eta_format_shape [OF fm]
  obtain qm mi r se where sh:
    "float_floordiv ?eta (Fin 60) = Inr qm" "py_int qm = Inr mi"
    "float_rem ?eta (Fin 60) = Inr r" "py_int r = Inr se"
    "ef = zfill 2 (str_int mi) @ [58] @ zfill 2 (str_int se)"
    "2 \<le> length (zfill 2 (str_int mi))" "length (zfill 2 (str_int se)) = 2"
    by blast
  have parts: "\<forall>x. ?eta = Fin x \<and> 0 \<le> x \<and> x < 2 ^ 53 \<longrightarrow>
      mi = \<lfloor>x\<rfloor> div 60 \<and> se = \<lfloor>x\<rfloor> mod 60"
  proof (intro allI impI)
    fix x assume h: "?eta = Fin x \<and> 0 \<le> x \<and> x < 2 ^ 53"
    show "mi = \<lfloor>x\<rfloor> div 60 \<and> se = \<lfloor>x\<rfloor> mod 60"
      using sh(1-4) h eta_format_parts [of x qm mi r se] by simp
  qed
  have tail: "flt (self_progress self') (Fin 1) \<longrightarrow>
      (\<exists>pre. stdout t' = pre @ ascii ''ETA: '' @ ef @ [13])"
  proof
    assume lt: "flt (self_progress self') (Fin 1)"
    have lt': "flt ?q (Fin 1)" using lt q by simp
    obtain pre where "rendered_line E (feq ?q (Fin 1)) (self_text self)
            pct c (int_of (self_width self) - c) (ascii ''ETA: '' @ ef) = pre @ ascii ''ETA: '' @ ef"
      using rendered_line_tail by blast
    then have "stdout t' = (stdout t @ pre) @ ascii ''ETA: '' @ ef @ [13]"
      using out lt' by simp
    then show "\<exists>pre. stdout t' = pre @ ascii ''ETA: '' @ ef @ [13]" by blast
  qed
  have "\<exists>q eta ef qm mi r se.
      fdiv (elapsed_at E (self, t)) (self_progress self') = Inr q
    \<and> eta = fadd (fmul q (fsub (Fin 1) (self_progress self'))) (Fin 1)
    \<and> eta_format eta = Inr ef
    \<and> float_floordiv eta (Fin 60) = Inr qm \<and> py_int qm = Inr mi
    \<and> float_rem eta (Fin 60) = Inr r \<and> py_int r = Inr se
    \<and> ef = zfill 2 (str_int mi) @ [58] @ zfill 2 (str_int se)
    \<and> 2 \<le> length (zfill 2 (str_int mi)) \<and> length (zfill 2 (str_int se)) = 2
    \<and> (\<forall>x. eta = Fin x \<and> 0 \<le> x \<and> x < 2 ^ 53 \<longrightarrow>
          mi = \<lfloor>x\<rfloor> div 60 \<and> se = \<lfloor>x\<rfloor> mod 60)
    \<and> (flt (self_progress self') (Fin 1) \<longrightarrow>
         (\<exists>pre. stdout t' = pre @ ascii ''ETA: '' @ ef @ [13]))"
    apply (rule exI [of _ qq])
    apply (rule exI [of _ ?eta])
    apply (rule exI [of _ ef])
    apply (rule exI [of _ qm])
    apply (rule exI [of _ mi])
    apply (rule exI [of _ r])
    apply (rule exI [of _ se])
    apply (intro conjI qq refl fm sh parts tail)
    done
  then show ?thesis
    using eta_of_half eta_format_11 eta_format_3661 by (intro conjI)
qed

theorem eta_formula_and_format_witness:
  "update plain_env 1 (new_bar 2 4\<lparr>self_start := Some (Fin 0)\<rparr>, fresh_io\<lparr>ticks := 400\<rparr>) =
     (None,
      new_bar 2 4\<lparr>self_start := Some (Fin 0), self_progress := Fin (1 / 2),
        self_LAST := Some (Fin 4010)\<rparr>,
      \<lparr>ticks = 402,
        stdout = ascii '' @ Progress '' @ [9473, 9473] @ [9473, 9473]
          @ ascii '' [ 50.00 %] ETA: 66:41'' @ [13],
        cursor_visible = False\<rparr>)
   \<and> \<not> fgt (Fin (1 / 2)) (Fin 1) \<and> flt (Fin (1 / 2)) (Fin 1)
   \<and> elapsed_at plain_env
        (new_bar 2 4\<lparr>self_start := Some (Fin 0)\<rparr>, fresh_io\<lparr>ticks := 400\<rparr>) = Fin 4000
   \<and> fdiv (Fin 4000) (Fin (1 / 2)) = Inr (Fin 8000)
   \<and> fadd (fmul (Fin 8000) (fsub (Fin 1) (Fin (1 / 2)))) (Fin 1) = Fin 4001
   \<and> (0::rat) \<le> 4001 \<and> (4001::rat) < 2 ^ 53
   \<and> (\<exists>mi se. eta_format (Fin 4001) = Inr (zfill 2 (str_int mi) @ [58] @ zfill 2 (str_int se))
        \<and> mi = 66 \<and> se = 41
        \<and> (\<exists>pre. ascii '' @ Progress '' @ [9473, 9473] @ [9473, 9473]
              @ ascii '' [ 50.00 %] ETA: 66:41'' @ [13]
            = pre @ ascii ''ETA: '' @ zfill 2 (str_int mi) @ [58] @ zfill 2 (str_int se) @ [13]))"
proof -
  let ?b = "new_bar 2 4\<lparr>self_start := Some (Fin 0)\<rparr>"
  let ?t = "fresh_io\<lparr>ticks := 400\<rparr>"
  have h2: "\<not> fgt (self_progress (new_bar 2 4\<lparr>self_start := Some (Fin 0),
        self_progress := Fin (1 / 2), self_LAST := Some (Fin 4010)\<rparr>)) (Fin 1)"
    by (simp add: half_cmp)
  have el: "elapsed_at plain_env (?b, ?t) = Fin 4000"
    by (simp add: elapsed_at_def start_timer_eq started_def float_defs)
  have q: "fdiv (Fin 4000) (Fin (1 / 2)) = Inr (Fin 8000)"
    by (simp add: float_defs)
  have e: "fadd (fmul (Fin 8000) (fsub (Fin 1) (Fin (1 / 2)))) (Fin 1) = Fin 4001"
    by (simp add: float_defs)
  have b: "(0::rat) \<le> 4001" "(4001::rat) < 2 ^ 53" "\<lfloor>4001::rat\<rfloor> div 60 = 66"
    "\<lfloor>4001::rat\<rfloor> mod 60 = 41"
    by simp_all
  from eta_formula_and_format [OF long_wait_plain h2]
  obtain mi se where "eta_format (Fin 4001) = Inr (zfill 2 (str_int mi) @ [58] @ zfill 2 (str_int se))"
    and "\<forall>x. Fin (4001::rat) = Fin x \<and> 0 \<le> x \<and> x < 2 ^ 53 \<longrightarrow>
          mi = \<lfloor>x\<rfloor> div 60 \<and> se = \<lfloor>x\<rfloor> mod 60"
    and "\<exists>pre. ascii '' @ Progress '' @ [9473, 9473] @ [9473, 9473]
              @ ascii '' [ 50.00 %] ETA: 66:41'' @ [13]
            = pre @ ascii ''ETA: '' @ zfill 2 (str_int mi) @ [58] @ zfill 2 (str_int se) @ [13]"
    by (auto simp: el q e half_cmp)
  then show ?thesis
    using long_wait_plain half_cmp el q e b by auto
qed

section \<open>A negative fraction\<close>

lemma rnd_m1 [simp]: "rnd (- 1) = Fin (- 1)"
  using rnd_int [of "- 1"] by simp

lemma rhe_m1 [simp]: "rhe (- 1) = - 1"
  using rhe_of_int [of "- 1"] by simp

lemma rnd_m_half [simp]: "rnd (- (1 / 2)) = Fin (- (1 / 2))"
  by (rule rnd_exact [where m = "- 1" and k = "- 1"]) (simp_all add: pow2_def)

lemma rnd_3_half [simp]: "rnd (3 / 2) = Fin (3 / 2)"
  by (rule rnd_exact [where m = 3 and k = "- 1"]) (simp_all add: pow2_def)

lemma minus_half: "py_truediv (- 1) 2 = Inr (Fin (- (1 / 2)))"
  by (simp add: py_truediv_def)

lemma m_half_cmp: "flt (Fin (- (1 / 2))) (Fin 0)" "\<not> fgt (Fin (- (1 / 2))) (Fin 1)"
  by (simp_all add: float_defs)

lemma percentage_of_m_half: "percentage_of (Fin (- (1 / 2))) = Inr (Fin (- 50))"
  by (simp add: percentage_of_def py_round_nd_def float_defs Let_def)

lemma completed_of_m_half_4: "completed_of (Fin (- (1 / 2))) 4 = Inr (- 2)"
  by (simp add: completed_of_def int_to_float_small float_defs)

lemma ten_over_eps: "cdiv (Fin 10) EPS = Fin 10000000000000"
proof -
  have "rnd (10 / (4951760157141521 / 2 ^ 92)) = Fin 10000000000000"
    by (rule rnd_evalI [where e = 43 and m = 5120000000000000]) (simp_all add: pow2_def)
  then show ?thesis by (simp add: EPS_eval cdiv_def is_nan_def is_inf_def is_zero_def val_def)
qed

lemma one_minus_eps: "fsub (Fin 1) EPS = Fin (9007199254731985 / 9007199254740992)"
proof -
  have "rnd (1 - 4951760157141521 / 2 ^ 92) = Fin (9007199254731985 / 9007199254740992)"
    by (rule rnd_evalI [where e = "- 1" and m = 9007199254731985]) (simp_all add: pow2_def)
  then show ?thesis
    by (simp add: EPS_eval fsub_def fadd_def fneg_def is_nan_def is_inf_def is_zero_def val_def)
qed

lemma eps_product:
  "fmul (Fin 10000000000000) (Fin (9007199254731985 / 9007199254740992)) = Fin 9999999999990"
proof -
  have "rnd (10000000000000 * (9007199254731985 / 9007199254740992)) = Fin 9999999999990"
    by (rule rnd_evalI [where e = 43 and m = 5119999999994880]) (simp_all add: pow2_def)
  then show ?thesis by (simp add: fmul_def is_nan_def is_inf_def is_zero_def val_def)
qed

lemma eta_of_eps: "eta_of (Fin 10) EPS = Inr (Fin 9999999999991)"
proof -
  have z: "\<not> is_zero EPS" by (simp add: EPS_eval is_zero_def)
  have "fadd (Fin 9999999999990) (Fin 1) = Fin 9999999999991"
    by (simp add: fadd_def is_nan_def is_inf_def is_zero_def val_def)
  then show ?thesis
    by (simp add: eta_of_def fdiv_def z ten_over_eps one_minus_eps eps_product)
qed

lemma eta_format_eps: "eta_format (Fin 9999999999991) = Inr (ascii ''166666666666:31'')"
  by (simp add: eta_format_def float_defs str_defs Let_def)

lemma eta_string_eps: "eta_string (Fin 10) EPS = Inr (ascii ''166666666666:31'')"
  by (simp add: eta_string_def eta_of_eps eta_format_eps)

lemma eta_string_m_half: "eta_string (Fin 10) (Fin (- (1 / 2))) = Inr (ascii ''-1:31'')"
  by (simp add: eta_string_def eta_of_def eta_format_def float_defs str_defs Let_def
      ceiling_def)

lemma format_m50: "rjust 6 (format_f 2 (Fin (- 50))) = ascii ''-50.00''"
  by (simp add: format_f_def str_defs Let_def)

lemma update_ignores_stored_fraction:
  "fst (update E current (self\<lparr>self_progress := x\<rparr>, t)) = fst (update E current (self, t))
   \<and> snd (snd (update E current (self\<lparr>self_progress := x\<rparr>, t)))
       = snd (snd (update E current (self, t)))"
proof (cases "py_truediv current (int_of (self_total self))")
  case (Inl e)
  then show ?thesis by (simp add: update_eq start_timer_eq)
next
  case p: (Inr p)
  show ?thesis
  proof (cases "percentage_of p")
    case (Inl e)
    then show ?thesis using p by (simp add: update_eq start_timer_eq)
  next
    case pct: (Inr pct)
    show ?thesis
    proof (cases "completed_of p (int_of (self_width self))")
      case (Inl e)
      then show ?thesis using p pct by (simp add: update_eq start_timer_eq)
    next
      case (Inr c)
      then show ?thesis
        using p pct
        by (cases "self_start self") (simp_all add: update_eq start_timer_eq started_def)
    qed
  qed
qed

lemma display_keeps_fraction:
  assumes "self_start s = Some start"
  shows "self_progress (fst (snd (display E pct c r (s, t)))) = self_progress s"
  by (simp add: display_eq [OF assms] split: sum.splits prod.splits option.splits)

lemma six_cells: "repeated SYMBOL 6 = [9473, 9473, 9473, 9473, 9473, 9473]"
  by (simp add: repeated_def SYMBOL_def eval_nat_numeral)

lemma no_cells: "repeated SYMBOL (- 2) = []"
  by (simp add: repeated_def)

lemma below_zero_plain:
  "update plain_env (- 1) (new_bar 2 4, fresh_io) =
     (None,
      new_bar 2 4\<lparr>self_start := Some (Fin 0), self_progress := EPS,
        self_LAST := Some (Fin 20)\<rparr>,
      \<lparr>ticks = 3,
        stdout = ascii '' @ Progress '' @ [9473, 9473, 9473, 9473, 9473, 9473]
          @ ascii '' [-50.00 %] ETA: 166666666666:31'' @ [13],
        cursor_visible = False\<rparr>)"
proof -
  have e: "eta_string (elapsed_at plain_env (new_bar 2 4, fresh_io))
      (if flt (Fin (- (1 / 2))) (Fin 0) then EPS else Fin (- (1 / 2)))
      = Inr (ascii ''166666666666:31'')"
    by (simp add: elapsed_fresh_plain m_half_cmp eta_string_eps)
  have p: "py_truediv (- 1) (int_of (self_total (new_bar 2 4))) = Inr (Fin (- (1 / 2)))"
    by (simp add: minus_half)
  have c: "completed_of (Fin (- (1 / 2))) (int_of (self_width (new_bar 2 4))) = Inr (- 2)"
    by (simp add: completed_of_m_half_4)
  have d: "\<not> feq EPS (Fin 1)" using flt_one_not_done [OF EPS_below_one] by simp
  have i: "index_sized (- 2)" "index_sized (int_of (self_width (new_bar 2 4)) - - 2)"
    by (simp_all add: index_sized_def)
  have f: "fits plain_env
      (rendered_line plain_env
        (feq (if flt (Fin (- (1 / 2))) (Fin 0) then EPS else Fin (- (1 / 2))) (Fin 1))
        (self_text (new_bar 2 4)) (Fin (- 50)) (- 2)
        (int_of (self_width (new_bar 2 4)) - - 2)
        (if flt (if flt (Fin (- (1 / 2))) (Fin 0) then EPS else Fin (- (1 / 2))) (Fin 1)
         then ascii ''ETA: '' @ ascii ''166666666666:31''
         else ascii ''Elapsed: '' @ format_f 2 (elapsed_at plain_env (new_bar 2 4, fresh_io))
                @ ascii ''s''))"
    by (simp add: m_half_cmp EPS_below_one d fits_def rendered_line_def text_colour_def
        progress_colour_def ICON_of_def format_m50 six_cells no_cells ascii_def)
  have n: "list_all (encodable plain_env)
      (if flt (if flt (Fin (- (1 / 2))) (Fin 0) then EPS else Fin (- (1 / 2))) (Fin 1)
       then [13] else [10])"
    by (simp add: m_half_cmp EPS_below_one)
  show ?thesis
    unfolding update_renders [OF p m_half_cmp(2) percentage_of_m_half c e i f n]
    by (simp add: m_half_cmp EPS_below_one d started_def start_timer_eq rendered_line_def
        text_colour_def progress_colour_def ICON_of_def format_m50 six_cells
        no_cells fresh_io_def ascii_def)
qed

text \<open>
  Claim C4, as amended.  When the computed fraction \<open>p\<close> is below zero and percentage
  and cells can be computed, the stored fraction is reset to \<^verbatim>\<open>1e-12\<close>.  If the call
  returns, it has printed one in-progress line whose percentage and cell counts come
  from \<open>p\<close>, the fraction before the reset, and whose ETA comes from the reset value.
  No later call depends on the stored fraction: an update gives the same result and
  the same terminal whatever fraction is stored.
\<close>

theorem negative_fraction_reset:
  assumes "py_truediv current (int_of (self_total self)) = Inr p" and "flt p (Fin 0)"
  shows "(percentage_of p = Inr pct \<and> completed_of p (int_of (self_width self)) = Inr c \<longrightarrow>
           self_progress (fst (snd (update E current (self, t)))) = EPS)
    \<and> (update E current (self, t) = (None, self', t') \<longrightarrow>
         self_progress self' = EPS \<and>
         (\<exists>pct c ef. percentage_of p = Inr pct
            \<and> completed_of p (int_of (self_width self)) = Inr c
            \<and> eta_string (elapsed_at E (self, t)) EPS = Inr ef
            \<and> stdout t' = stdout t @
                 rendered_line E False (self_text self) pct c (int_of (self_width self) - c)
                   (ascii ''ETA: '' @ ef) @ [13]))
    \<and> fst (update E2 k (self2\<lparr>self_progress := x\<rparr>, u)) = fst (update E2 k (self2, u))
    \<and> snd (snd (update E2 k (self2\<lparr>self_progress := x\<rparr>, u)))
        = snd (snd (update E2 k (self2, u)))"
proof -
  have ng: "\<not> fgt p (Fin 1)"
    using assms(2) fgt_one_not_negative [of p] by blast
  have d: "\<not> feq EPS (Fin 1)" using flt_one_not_done [OF EPS_below_one] by simp
  have first: "self_progress (fst (snd (update E current (self, t)))) = EPS"
    if "percentage_of p = Inr pct" "completed_of p (int_of (self_width self)) = Inr c"
    using that assms
    by (simp add: update_eq start_timer_eq display_keeps_fraction)
  have second: "self_progress self' = EPS \<and>
         (\<exists>pct c ef. percentage_of p = Inr pct
            \<and> completed_of p (int_of (self_width self)) = Inr c
            \<and> eta_string (elapsed_at E (self, t)) EPS = Inr ef
            \<and> stdout t' = stdout t @
                 rendered_line E False (self_text self) pct c (int_of (self_width self) - c)
                   (ascii ''ETA: '' @ ef) @ [13])"
    if u: "update E current (self, t) = (None, self', t')"
  proof -
    from update_returns [OF u] assms(1) ng
    obtain pct' c' ef where pc: "percentage_of p = Inr pct'"
      "completed_of p (int_of (self_width self)) = Inr c'"
      and ef: "eta_string (elapsed_at E (self, t)) (if flt p (Fin 0) then EPS else p) = Inr ef"
      by auto
    let ?q = "if flt p (Fin 0) then EPS else p"
    let ?line = "rendered_line E (feq ?q (Fin 1)) (self_text self)
            pct' c' (int_of (self_width self) - c')
            (if flt ?q (Fin 1) then ascii ''ETA: '' @ ef
             else ascii ''Elapsed: '' @ format_f 2 (elapsed_at E (self, t)) @ ascii ''s'')"
    let ?ending = "if flt ?q (Fin 1) then [13] else [10]"
    obtain x out
      where wr: "written E c' (int_of (self_width self) - c') ?line ?ending = (x, out)"
      by (cases "written E c' (int_of (self_width self) - c') ?line ?ending") blast
    from update_renders_cases [OF assms(1) ng pc ef] u wr
    have x: "x = None" and q: "self_progress self' = ?q"
      and o: "stdout t' = stdout t @ out"
      by (auto split: option.splits)
    from wr x have "out = ?line @ ?ending" by (simp add: written_None)
    with o q assms(2)
    have "self_progress self' = EPS"
      and "stdout t' = stdout t @
          rendered_line E False (self_text self) pct' c' (int_of (self_width self) - c')
            (ascii ''ETA: '' @ ef) @ [13]"
      by (simp_all add: EPS_below_one d)
    then show ?thesis using pc ef assms(2) by auto
  qed
  show ?thesis
    using first second update_ignores_stored_fraction [where E = E2 and current = k and self = self2 and x = x
      and t = u] by blast
qed

theorem negative_fraction_reset_witness:
  "py_truediv (- 1) (int_of (self_total (new_bar 2 4))) = Inr (Fin (- (1 / 2)))
   \<and> flt (Fin (- (1 / 2))) (Fin 0)
   \<and> percentage_of (Fin (- (1 / 2))) = Inr (Fin (- 50))
   \<and> completed_of (Fin (- (1 / 2))) (int_of (self_width (new_bar 2 4))) = Inr (- 2)
   \<and> fst (update plain_env (- 1) (new_bar 2 4, fresh_io)) = None
   \<and> self_progress (fst (snd (update plain_env (- 1) (new_bar 2 4, fresh_io)))) = EPS"
proof -
  have h1: "py_truediv (- 1) (int_of (self_total (new_bar 2 4))) = Inr (Fin (- (1 / 2)))"
    by (simp add: minus_half)
  have h3: "percentage_of (Fin (- (1 / 2))) = Inr (Fin (- 50))"
    by (rule percentage_of_m_half)
  have h4: "completed_of (Fin (- (1 / 2))) (int_of (self_width (new_bar 2 4))) = Inr (- 2)"
    by (simp add: completed_of_m_half_4)
  from negative_fraction_reset [OF h1 m_half_cmp(1), where pct = "Fin (- 50)" and c = "- 2"
      and E = plain_env and t = fresh_io] h1 m_half_cmp(1) h3 h4 below_zero_plain
  show ?thesis by simp
qed

text \<open>
  Claim C4 as stated fails where it says that the reset does not affect the current
  render: for \<^verbatim>\<open>ProgressBar(2, "Progress", 4).update(-1)\<close>, ten seconds after the start,
  the printed ETA is the one of the reset value \<^verbatim>\<open>1e-12\<close>, not the one of the computed
  fraction \<open>-0.5\<close>.
\<close>

theorem negative_fraction_eta_uses_reset:
  "py_truediv (- 1) 2 = Inr (Fin (- (1 / 2))) \<and> flt (Fin (- (1 / 2))) (Fin 0)
   \<and> elapsed_at plain_env (new_bar 2 4, fresh_io) = Fin 10
   \<and> stdout (snd (snd (update plain_env (- 1) (new_bar 2 4, fresh_io))))
       = ascii '' @ Progress '' @ [9473, 9473, 9473, 9473, 9473, 9473]
         @ ascii '' [-50.00 %] ETA: 166666666666:31'' @ [13]
   \<and> eta_string (Fin 10) EPS = Inr (ascii ''166666666666:31'')
   \<and> eta_string (Fin 10) (Fin (- (1 / 2))) = Inr (ascii ''-1:31'')
   \<and> stdout (snd (snd (update plain_env (- 1) (new_bar 2 4, fresh_io))))
       \<noteq> rendered_line plain_env False (ascii ''Progress'') (Fin (- 50)) (- 2) 6
           (ascii ''ETA: '' @ ascii ''-1:31'') @ [13]"
  by (simp add: minus_half m_half_cmp elapsed_fresh_plain below_zero_plain eta_string_eps
      eta_string_m_half rendered_line_def text_colour_def progress_colour_def ICON_of_def
      format_m50 six_cells no_cells ascii_def)

end
